theory Spec2Isabelle
  imports Main
begin

section \<open>Federal Register miners: the model\<close>

text \<open>
  The two programs, \<^verbatim>\<open>federal_register_miner.py\<close> and \<^verbatim>\<open>historical_fr_miner.py\<close>,
  share \<^verbatim>\<open>load_state\<close>, \<^verbatim>\<open>save_state\<close>, \<^verbatim>\<open>get_next_story_num\<close>, \<^verbatim>\<open>slugify\<close> and
  \<^verbatim>\<open>create_story_html\<close> word for word (up to one line of the artifact body); they are
  modelled once.

  Python strings are modelled as \<^typ>\<open>string\<close>: a \<^typ>\<open>char\<close> stands for a code point
  below 256 (Latin-1), so \<^const>\<open>length\<close> counts code points as \<^verbatim>\<open>len\<close> does.
  Python integers are \<^typ>\<open>int\<close>; lengths and page numbers, which the code only ever
  counts upwards from 0 or 1, are \<^typ>\<open>nat\<close>.
\<close>

subsection \<open>String primitives of Python\<close>

definition startswith :: "string \<Rightarrow> string \<Rightarrow> bool" where
  "startswith s p = (take (length p) s = p)"

definition endswith :: "string \<Rightarrow> string \<Rightarrow> bool" where
  "endswith s p = (length p \<le> length s \<and> drop (length s - length p) s = p)"

text \<open>\<^verbatim>\<open>\d\<close>, \<^verbatim>\<open>[a-z]\<close> and \<^verbatim>\<open>\s\<close> of the \<^verbatim>\<open>re\<close> module on code points below 256.\<close>

definition is_digit :: "char \<Rightarrow> bool" where
  "is_digit c = (c \<in> set ''0123456789'')"

definition is_lower_az :: "char \<Rightarrow> bool" where
  "is_lower_az c = (c \<in> set ''abcdefghijklmnopqrstuvwxyz'')"

definition is_space :: "char \<Rightarrow> bool" where
  "is_space c = (c \<in> set [CHR 0x09, CHR 0x0A, CHR 0x0B, CHR 0x0C, CHR 0x0D,
                           CHR 0x1C, CHR 0x1D, CHR 0x1E, CHR 0x1F, CHR 0x20,
                           CHR 0x85, CHR 0xA0])"

text \<open>\<^verbatim>\<open>str.lower\<close>: the cased code points below 256 and their lower-case forms.\<close>

definition upper_chars :: string where
  "upper_chars = ''ABCDEFGHIJKLMNOPQRSTUVWXYZ'' @
     [CHR 0xC0, CHR 0xC1, CHR 0xC2, CHR 0xC3, CHR 0xC4, CHR 0xC5, CHR 0xC6, CHR 0xC7,
      CHR 0xC8, CHR 0xC9, CHR 0xCA, CHR 0xCB, CHR 0xCC, CHR 0xCD, CHR 0xCE, CHR 0xCF,
      CHR 0xD0, CHR 0xD1, CHR 0xD2, CHR 0xD3, CHR 0xD4, CHR 0xD5, CHR 0xD6, CHR 0xD8,
      CHR 0xD9, CHR 0xDA, CHR 0xDB, CHR 0xDC, CHR 0xDD, CHR 0xDE]"

definition lower_chars :: string where
  "lower_chars = ''abcdefghijklmnopqrstuvwxyz'' @
     [CHR 0xE0, CHR 0xE1, CHR 0xE2, CHR 0xE3, CHR 0xE4, CHR 0xE5, CHR 0xE6, CHR 0xE7,
      CHR 0xE8, CHR 0xE9, CHR 0xEA, CHR 0xEB, CHR 0xEC, CHR 0xED, CHR 0xEE, CHR 0xEF,
      CHR 0xF0, CHR 0xF1, CHR 0xF2, CHR 0xF3, CHR 0xF4, CHR 0xF5, CHR 0xF6, CHR 0xF8,
      CHR 0xF9, CHR 0xFA, CHR 0xFB, CHR 0xFC, CHR 0xFD, CHR 0xFE]"

definition lower_char :: "char \<Rightarrow> char" where
  "lower_char c = (case map_of (zip upper_chars lower_chars) c of None \<Rightarrow> c | Some l \<Rightarrow> l)"

definition lower :: "string \<Rightarrow> string" where
  "lower s = map lower_char s"

text \<open>\<^verbatim>\<open>str.strip('-')\<close>.\<close>

definition strip_hyphens :: "string \<Rightarrow> string" where
  "strip_hyphens s =
     rev (dropWhile (\<lambda>c. c = CHR ''-'') (rev (dropWhile (\<lambda>c. c = CHR ''-'') s)))"

text \<open>\<^verbatim>\<open>str(n)\<close> for \<open>n \<ge> 0\<close>, \<^verbatim>\<open>int(s)\<close> on a string of digits, and the format \<^verbatim>\<open>{n:03d}\<close>
  (sign first, then zeros up to a total width of three).\<close>

definition digit_char :: "nat \<Rightarrow> char" where
  "digit_char d = ''0123456789'' ! d"

fun str_nat :: "nat \<Rightarrow> string" where
  "str_nat n = (if n < 10 then [digit_char n] else str_nat (n div 10) @ [digit_char (n mod 10)])"

declare str_nat.simps [simp del]

definition digit_val :: "char \<Rightarrow> int" where
  "digit_val c = int (of_char c) - 48"

definition int_of_digits :: "string \<Rightarrow> int" where
  "int_of_digits ds = foldl (\<lambda>a c. 10 * a + digit_val c) 0 ds"

definition format_03d :: "int \<Rightarrow> string" where
  "format_03d n =
     (let sg = (if n < 0 then ''-'' else '''');
          ds = str_nat (nat \<bar>n\<bar>)
      in sg @ replicate (3 - length sg - length ds) (CHR ''0'') @ ds)"

text \<open>\<^verbatim>\<open>s.find(sub)\<close> (\<open>-1\<close> when absent) and \<^verbatim>\<open>sub in s\<close>.\<close>

fun find_str :: "string \<Rightarrow> string \<Rightarrow> int" where
  "find_str [] sub = (if sub = [] then 0 else - 1)"
| "find_str (c # cs) sub =
     (if startswith (c # cs) sub then 0
      else (let r = find_str cs sub in if r < 0 then - 1 else r + 1))"

definition str_in :: "string \<Rightarrow> string \<Rightarrow> bool" where
  "str_in sub s = (0 \<le> find_str s sub)"

text \<open>What \<^verbatim>\<open>f.read()\<close> returns for a file opened with \<^verbatim>\<open>open(path, 'r')\<close>: the text of the
  file with every \<^verbatim>\<open>\r\n\<close> and every remaining \<^verbatim>\<open>\r\<close> turned into \<^verbatim>\<open>\n\<close> (universal newlines).
  Writing through \<^verbatim>\<open>open(path, 'w')\<close> leaves \<^verbatim>\<open>\n\<close> as it is on the POSIX system \<^verbatim>\<open>REPO_DIR\<close>
  names.\<close>

fun universal_newlines :: "string \<Rightarrow> string" where
  "universal_newlines [] = []"
| "universal_newlines [c] = [if c = CHR 0x0D then CHR 0x0A else c]"
| "universal_newlines (c # d # ds) =
     (if c = CHR 0x0D \<and> d = CHR 0x0A then CHR 0x0A # universal_newlines ds
      else if c = CHR 0x0D then CHR 0x0A # universal_newlines (d # ds)
      else c # universal_newlines (d # ds))"

subsection \<open>\<^verbatim>\<open>slugify\<close>\<close>

text \<open>\<^verbatim>\<open>re.sub(r'[^a-z0-9\s-]', '', slug)\<close> keeps exactly the characters of the class.\<close>

definition slug_keep :: "char \<Rightarrow> bool" where
  "slug_keep c = (is_lower_az c \<or> is_digit c \<or> is_space c \<or> c = CHR ''-'')"

text \<open>\<^verbatim>\<open>re.sub(r'[\s_-]+', '-', slug)\<close>: every maximal run of separators becomes one hyphen.\<close>

definition is_sep :: "char \<Rightarrow> bool" where
  "is_sep c = (is_space c \<or> c = CHR ''_'' \<or> c = CHR ''-'')"

function sub_runs :: "string \<Rightarrow> string" where
  "sub_runs [] = []"
| "sub_runs (c # cs) =
     (if is_sep c then CHR ''-'' # sub_runs (dropWhile is_sep cs) else c # sub_runs cs)"
  by pat_completeness auto
termination
  by (relation "measure length") (auto simp: less_Suc_eq_le length_dropWhile_le)

definition slugify :: "string \<Rightarrow> string" where
  "slugify title_str =
     (let slug = lower title_str;
          slug = filter slug_keep slug;
          slug = sub_runs slug;
          slug = strip_hyphens slug
      in take 50 slug)"

subsection \<open>\<^verbatim>\<open>get_next_story_num\<close>\<close>

text \<open>\<^verbatim>\<open>re.match(r'story-(\d+)', f)\<close>: the group is the longest run of digits right after
  the prefix; there is no match when that run is empty.\<close>

definition match_story :: "string \<Rightarrow> string option" where
  "match_story f =
     (if startswith f ''story-''
      then (let ds = takeWhile is_digit (drop 6 f) in if ds = [] then None else Some ds)
      else None)"

text \<open>The loop that fills \<^verbatim>\<open>nums\<close>. Python's \<^verbatim>\<open>max\<close> is only reached on a non-empty
  list, where it folds \<open>max\<close> from the first element on.\<close>

fun collect_nums :: "string list \<Rightarrow> int list \<Rightarrow> int list" where
  "collect_nums [] nums = nums"
| "collect_nums (f # fs) nums =
     (case match_story f of
        Some g \<Rightarrow> collect_nums fs (nums @ [int_of_digits g])
      | None \<Rightarrow> collect_nums fs nums)"

definition get_next_story_num :: "string list \<Rightarrow> int" where
  "get_next_story_num listing =
     (let existing = filter (\<lambda>f. startswith f ''story-'' \<and> endswith f ''.html'') listing
      in if existing = [] then 1
         else (case collect_nums existing [] of
                 x # xs \<Rightarrow> foldl max x xs + 1
               | [] \<Rightarrow> 1))"

subsection \<open>Data model\<close>

text \<open>
  A fetched document is a JSON object read with \<^verbatim>\<open>doc.get(key, default)\<close>: a field is
  \<open>None\<close> when the key is absent. Only \<^verbatim>\<open>document_number\<close> and \<^verbatim>\<open>title\<close> reach the
  ledger, the file name and the headline; the other fields only fill the body of the
  artifact, which is written to disk and never read back, and are left out.
\<close>

record doc =
  document_number :: "string option"
  title :: "string option"

text \<open>The state dictionary \<^verbatim>\<open>{"published_docs": [...], "next_story_num": n}\<close>. The ledger
  is a Python list: membership is tested with \<^verbatim>\<open>in\<close>, growth is \<^verbatim>\<open>append\<close>.\<close>

record state =
  published_docs :: "string list"
  next_story_num :: int

text \<open>A story is the pair \<^verbatim>\<open>(filename, headline)\<close> that \<^verbatim>\<open>create_story_html\<close> returns.\<close>

type_synonym story = "string \<times> string"

text \<open>One call of \<^verbatim>\<open>fetch_documents\<close> either raises (network failure, time-out, a status
  that \<^verbatim>\<open>raise_for_status\<close> rejects, a body that is not JSON) or returns the decoded
  object, read with \<^verbatim>\<open>data.get('results', [])\<close> and \<^verbatim>\<open>data.get('total_pages', 1)\<close>.\<close>

datatype fetch_error = NetworkError | HttpStatusError | MalformedJson

record response =
  results :: "doc list option"
  total_pages :: "int option"

definition get_results :: "response \<Rightarrow> doc list" where
  "get_results data = (case results data of None \<Rightarrow> [] | Some r \<Rightarrow> r)"

definition get_total_pages :: "response \<Rightarrow> int" where
  "get_total_pages data = (case total_pages data of None \<Rightarrow> 1 | Some t \<Rightarrow> t)"

text \<open>The upstream API, as one run sees it: date string and page number to outcome.\<close>

type_synonym upstream = "string \<Rightarrow> nat \<Rightarrow> fetch_error + response"

subsection \<open>\<^verbatim>\<open>create_story_html\<close>\<close>

definition create_story_html :: "doc \<Rightarrow> int \<Rightarrow> story" where
  "create_story_html d story_num =
     (let title_str = (case title d of None \<Rightarrow> ''Untitled'' | Some t \<Rightarrow> t);
          headline = ''Federal Register: '' @ title_str;
          slug = slugify title_str;
          filename = ''story-'' @ format_03d story_num @ ''-fr-'' @ slug @ ''.html''
      in (filename, headline))"

subsection \<open>Mining one date\<close>

text \<open>\<^verbatim>\<open>doc.get('document_number', '')\<close>.\<close>

definition get_doc_num :: "doc \<Rightarrow> string" where
  "get_doc_num d = (case document_number d of None \<Rightarrow> [] | Some n \<Rightarrow> n)"

text \<open>The \<^verbatim>\<open>for doc in results\<close> loop of \<^verbatim>\<open>mine_date\<close> either leaves the function through
  \<^verbatim>\<open>return new_stories\<close> or falls through to the code after it. The dictionary
  \<^verbatim>\<open>state\<close> is mutated in place; the model hands the new state back.\<close>

datatype for_exit = Return "story list" state | Fallthrough "story list" state

fun mine_date_for :: "int \<Rightarrow> doc list \<Rightarrow> state \<Rightarrow> story list \<Rightarrow> for_exit" where
  "mine_date_for batch_size [] st new_stories = Fallthrough new_stories st"
| "mine_date_for batch_size (d # ds) st new_stories =
     (let doc_num = get_doc_num d
      in if doc_num \<in> set (published_docs st) then mine_date_for batch_size ds st new_stories
         else (let story_num = next_story_num st;
                   new_stories' = new_stories @ [create_story_html d story_num];
                   st' = st\<lparr>published_docs := published_docs st @ [doc_num],
                            next_story_num := next_story_num st + 1\<rparr>
               in if batch_size \<le> int (length new_stories') then Return new_stories' st'
                  else mine_date_for batch_size ds st' new_stories'))"

text \<open>The \<^verbatim>\<open>while True\<close> loop. \<^verbatim>\<open>except Exception\<close> turns a failed fetch into \<^verbatim>\<open>break\<close>.
  The fields of a decoded document that are present are taken to be strings and the
  write of the artifact to succeed, so that the fetch is the only statement of the
  \<^verbatim>\<open>try\<close> block that raises. The pause between two pages has no effect on the result.
  The loop need not end (an upstream that always announces one more page, with nothing
  new on any of them): \<open>None\<close> is a run that never returns.\<close>

partial_function (option) mine_date_while ::
  "(nat \<Rightarrow> fetch_error + response) \<Rightarrow> int \<Rightarrow> nat \<Rightarrow> state \<Rightarrow> story list
     \<Rightarrow> (story list \<times> state) option" where
  "mine_date_while fetch batch_size page st new_stories =
     (case fetch page of
        Inl e \<Rightarrow> Some (new_stories, st)
      | Inr data \<Rightarrow>
          (let rs = get_results data
           in if rs = [] then Some (new_stories, st)
              else (case mine_date_for batch_size rs st new_stories of
                      Return new_stories' st' \<Rightarrow> Some (new_stories', st')
                    | Fallthrough new_stories' st' \<Rightarrow>
                        if get_total_pages data < int (page + 1) then Some (new_stories', st')
                        else mine_date_while fetch batch_size (page + 1) st' new_stories')))"

definition mine_date ::
  "upstream \<Rightarrow> string \<Rightarrow> state \<Rightarrow> int \<Rightarrow> (story list \<times> state) option" where
  "mine_date fetch_documents date_str st batch_size =
     mine_date_while (fetch_documents date_str) batch_size 1 st []"

text \<open>\<^verbatim>\<open>mine_date_all\<close> of the historical miner: the same loops without the batch test.\<close>

fun mine_date_all_for :: "doc list \<Rightarrow> state \<Rightarrow> story list \<Rightarrow> story list \<times> state" where
  "mine_date_all_for [] st new_stories = (new_stories, st)"
| "mine_date_all_for (d # ds) st new_stories =
     (let doc_num = get_doc_num d
      in if doc_num \<in> set (published_docs st) then mine_date_all_for ds st new_stories
         else (let story_num = next_story_num st;
                   new_stories' = new_stories @ [create_story_html d story_num];
                   st' = st\<lparr>published_docs := published_docs st @ [doc_num],
                            next_story_num := next_story_num st + 1\<rparr>
               in mine_date_all_for ds st' new_stories'))"

partial_function (option) mine_date_all_while ::
  "(nat \<Rightarrow> fetch_error + response) \<Rightarrow> nat \<Rightarrow> state \<Rightarrow> story list
     \<Rightarrow> (story list \<times> state) option" where
  "mine_date_all_while fetch page st new_stories =
     (case fetch page of
        Inl e \<Rightarrow> Some (new_stories, st)
      | Inr data \<Rightarrow>
          (let rs = get_results data
           in if rs = [] then Some (new_stories, st)
              else (case mine_date_all_for rs st new_stories of
                      (new_stories', st') \<Rightarrow>
                        if get_total_pages data < int (page + 1) then Some (new_stories', st')
                        else mine_date_all_while fetch (page + 1) st' new_stories')))"

definition mine_date_all ::
  "upstream \<Rightarrow> string \<Rightarrow> state \<Rightarrow> (story list \<times> state) option" where
  "mine_date_all fetch_documents date_str st =
     mine_date_all_while (fetch_documents date_str) 1 st []"

text \<open>A page at which the \<^verbatim>\<open>while\<close> loop ends if it gets there with the batch still open,
  and the documents a page carries (none when its fetch fails).\<close>

definition stops_at :: "(nat \<Rightarrow> fetch_error + response) \<Rightarrow> nat \<Rightarrow> bool" where
  "stops_at fetch p =
     (case fetch p of
        Inl e \<Rightarrow> True
      | Inr data \<Rightarrow> get_results data = [] \<or> get_total_pages data < int (p + 1))"

definition page_docs :: "(nat \<Rightarrow> fetch_error + response) \<Rightarrow> nat \<Rightarrow> doc list" where
  "page_docs fetch p = (case fetch p of Inl e \<Rightarrow> [] | Inr data \<Rightarrow> get_results data)"

subsection \<open>The files of the repository and the two \<^verbatim>\<open>main\<close> functions\<close>

text \<open>
  What a run reads and writes outside its own memory: \<^verbatim>\<open>fr_state.json\<close> (\<open>None\<close> when the
  file does not exist), the names \<^verbatim>\<open>os.listdir(REPO_DIR)\<close> returns when the run starts,
  the text stored in \<^verbatim>\<open>index.html\<close> (\<open>None\<close> when it does not exist), and the writes and
  pushes in the order they happen.
\<close>

datatype effect = SaveState state | WriteIndex string | CommitPush string

record world =
  state_file :: "state option"
  listdir :: "string list"
  index_file :: "string option"
  effects :: "effect list"

definition load_state :: "world \<Rightarrow> state" where
  "load_state w =
     (case state_file w of
        Some st \<Rightarrow> st
      | None \<Rightarrow> \<lparr>published_docs = [], next_story_num = 547\<rparr>)"

definition save_state :: "state \<Rightarrow> world \<Rightarrow> world" where
  "save_state st w = w\<lparr>state_file := Some st, effects := effects w @ [SaveState st]\<rparr>"

definition git_commit_push :: "string \<Rightarrow> world \<Rightarrow> world" where
  "git_commit_push message w = w\<lparr>effects := effects w @ [CommitPush message]\<rparr>"

definition default_index :: string where
  \<open>default_index = concat (map (\<lambda>l. l @ [CHR 0x0A])
     [''<!DOCTYPE html>'',
      ''<html>'',
      ''<head>'',
      ''    <title>Opus Claude Code Breaking News Wire</title>'',
      ''    <style>'',
      ''        body { font-family: Georgia, serif; max-width: 900px; margin: 0 auto; padding: 20px; }'',
      ''        h1 { border-bottom: 3px solid #dc3545; }'',
      ''        ul { list-style-type: none; padding: 0; }'',
      ''        li { padding: 10px; border-bottom: 1px solid #eee; }'',
      ''        a { color: #333; text-decoration: none; }'',
      ''        a:hover { color: #dc3545; }'',
      ''    </style>'',
      ''</head>'',
      ''<body>'',
      ''    <h1>Opus Claude Code Breaking News Wire</h1>'',
      ''    <ul id="stories">'',
      ''    </ul>'',
      ''</body>'',
      ''</html>''])\<close>

definition insert_marker :: string where
  \<open>insert_marker = ''<ul id="stories">''\<close>

text \<open>The string the \<^verbatim>\<open>for filename, headline in new_stories\<close> loop builds.\<close>

fun new_links :: "story list \<Rightarrow> string \<Rightarrow> string" where
  \<open>new_links [] links = links\<close>
| \<open>new_links ((filename, headline) # rest) links =
     new_links rest
       (links @ [CHR 0x0A] @ ''        <li><a href="'' @ filename @ ''">'' @ headline @ ''</a></li>'')\<close>

definition update_index_content :: "string \<Rightarrow> story list \<Rightarrow> string" where
  "update_index_content content new_stories =
     (if str_in insert_marker content
      then (let insert_pos = nat (find_str content insert_marker) + length insert_marker
            in take insert_pos content @ new_links new_stories [] @ drop insert_pos content)
      else content)"

definition update_index :: "story list \<Rightarrow> world \<Rightarrow> world" where
  "update_index new_stories w =
     (let content = (case index_file w of
                       Some raw \<Rightarrow> universal_newlines raw
                     | None \<Rightarrow> default_index);
          content = update_index_content content new_stories
      in w\<lparr>index_file := Some content, effects := effects w @ [WriteIndex content]\<rparr>)"

text \<open>\<^verbatim>\<open>main\<close> of \<^verbatim>\<open>federal_register_miner.py\<close>; \<open>today\<close> is the formatted date of the clock.\<close>

definition main_fr :: "upstream \<Rightarrow> string \<Rightarrow> world \<Rightarrow> (nat \<times> world) option" where
  "main_fr fetch_documents today w =
     (let st = load_state w;
          st = st\<lparr>next_story_num := get_next_story_num (listdir w)\<rparr>
      in case mine_date fetch_documents today st 100 of
           None \<Rightarrow> None
         | Some (new_stories, st') \<Rightarrow>
             if new_stories \<noteq> []
             then Some (length new_stories,
                        git_commit_push
                          (''Federal Register batch: '' @ str_nat (length new_stories)
                             @ '' documents from '' @ today)
                          (save_state st' (update_index new_stories w)))
             else Some (length new_stories, w))"

text \<open>\<^verbatim>\<open>main\<close> of \<^verbatim>\<open>historical_fr_miner.py\<close>. \<open>day i\<close> is the formatted date \<open>i\<close> days before
  the clock's; the loop state is \<^verbatim>\<open>state\<close>, \<^verbatim>\<open>total_new\<close> and \<^verbatim>\<open>batch_stories\<close>.\<close>

fun main_hist_for ::
  "upstream \<Rightarrow> (nat \<Rightarrow> string) \<Rightarrow> int \<Rightarrow> nat list \<Rightarrow> state \<Rightarrow> nat \<Rightarrow> story list \<Rightarrow> world
     \<Rightarrow> (state \<times> nat \<times> story list \<times> world) option" where
  "main_hist_for fetch_documents day batch_commit_size [] st total_new batch_stories w =
     Some (st, total_new, batch_stories, w)"
| "main_hist_for fetch_documents day batch_commit_size (i # is) st total_new batch_stories w =
     (case mine_date_all fetch_documents (day i) st of
        None \<Rightarrow> None
      | Some (new_stories, st') \<Rightarrow>
          (let batch_stories' = batch_stories @ new_stories;
               total_new' = total_new + length new_stories
           in if batch_commit_size \<le> int (length batch_stories')
              then main_hist_for fetch_documents day batch_commit_size is st' total_new' []
                     (git_commit_push
                        (''Federal Register historical batch: ''
                           @ str_nat (length batch_stories') @ '' documents'')
                        (save_state st' w))
              else main_hist_for fetch_documents day batch_commit_size is st' total_new'
                     batch_stories' w))"

definition main_hist ::
  "upstream \<Rightarrow> (nat \<Rightarrow> string) \<Rightarrow> int \<Rightarrow> int \<Rightarrow> world \<Rightarrow> (nat \<times> world) option" where
  "main_hist fetch_documents day days_back batch_commit_size w =
     (let st = load_state w;
          st = st\<lparr>next_story_num := get_next_story_num (listdir w)\<rparr>
      in case main_hist_for fetch_documents day batch_commit_size [0..<nat days_back] st 0 [] w of
           None \<Rightarrow> None
         | Some (st', total_new, batch_stories, w') \<Rightarrow>
             if batch_stories \<noteq> []
             then Some (total_new,
                        git_commit_push
                          (''Federal Register historical batch: ''
                             @ str_nat (length batch_stories) @ '' documents'')
                          (save_state st' w'))
             else Some (total_new, w'))"

subsection \<open>Notions used in the statements\<close>

text \<open>The sequence number a file name carries for \<^const>\<open>get_next_story_num\<close>: the name passes
  the \<^verbatim>\<open>startswith\<close>/\<^verbatim>\<open>endswith\<close> filter and the regular expression matches.\<close>

definition story_seq :: "string \<Rightarrow> int option" where
  "story_seq f =
     (if startswith f ''story-'' \<and> endswith f ''.html''
      then map_option int_of_digits (match_story f) else None)"

text \<open>The line \<^verbatim>\<open>update_index\<close> adds for one story.\<close>

definition link_of :: "story \<Rightarrow> string" where
  \<open>link_of s =
     [CHR 0x0A] @ ''        <li><a href="'' @ fst s @ ''">'' @ snd s @ ''</a></li>''\<close>

text \<open>The default skeleton up to its anchor, and from its anchor on.\<close>

definition default_before :: string where
  \<open>default_before = concat (map (\<lambda>l. l @ [CHR 0x0A])
     [''<!DOCTYPE html>'',
      ''<html>'',
      ''<head>'',
      ''    <title>Opus Claude Code Breaking News Wire</title>'',
      ''    <style>'',
      ''        body { font-family: Georgia, serif; max-width: 900px; margin: 0 auto; padding: 20px; }'',
      ''        h1 { border-bottom: 3px solid #dc3545; }'',
      ''        ul { list-style-type: none; padding: 0; }'',
      ''        li { padding: 10px; border-bottom: 1px solid #eee; }'',
      ''        a { color: #333; text-decoration: none; }'',
      ''        a:hover { color: #dc3545; }'',
      ''    </style>'',
      ''</head>'',
      ''<body>'',
      ''    <h1>Opus Claude Code Breaking News Wire</h1>'']) @ ''    ''\<close>

definition default_after :: string where
  \<open>default_after = [CHR 0x0A] @ concat (map (\<lambda>l. l @ [CHR 0x0A])
     [''    </ul>'',
      ''</body>'',
      ''</html>''])\<close>

text \<open>The state \<^verbatim>\<open>main\<close> works with once its first two statements have run, what a run of
  \<^verbatim>\<open>main\<close> leaves for others to see (the number it returns, the index file, the writes
  and pushes in order), and a world without its \<^verbatim>\<open>fr_state.json\<close>.\<close>

definition start_state :: "world \<Rightarrow> state" where
  "start_state w = (load_state w)\<lparr>next_story_num := get_next_story_num (listdir w)\<rparr>"

definition observable :: "(nat \<times> world) option \<Rightarrow> (nat \<times> string option \<times> effect list) option" where
  "observable r = (case r of None \<Rightarrow> None | Some (n, w) \<Rightarrow> Some (n, index_file w, effects w))"

definition forget :: "world \<Rightarrow> world" where
  "forget w = w\<lparr>state_file := None\<rparr>"

text \<open>
  The publisher as the design describes it, to compare the loops with. The documents of
  a list that a pass publishes: those whose identifier is not in the ledger, the first
  one only of several with the same identifier. Publishing a list of documents: each is
  rendered with the next sequence number in turn, the identifiers are appended to the
  ledger in that order, and the cursor moves on by their number.
\<close>

fun spec_unpublished :: "string list \<Rightarrow> doc list \<Rightarrow> doc list" where
  "spec_unpublished ledger [] = []"
| "spec_unpublished ledger (d # ds) =
     (if get_doc_num d \<in> set ledger then spec_unpublished ledger ds
      else d # spec_unpublished (ledger @ [get_doc_num d]) ds)"


text \<open>What a \<^verbatim>\<open>for\<close> loop hands on, whichever way it ends, and whether it ended in
  \<^verbatim>\<open>return\<close>.\<close>

fun exit_result :: "for_exit \<Rightarrow> story list \<times> state" where
  "exit_result (Return new_stories st) = (new_stories, st)"
| "exit_result (Fallthrough new_stories st) = (new_stories, st)"

fun is_return :: "for_exit \<Rightarrow> bool" where
  "is_return (Return new_stories st) = True"
| "is_return (Fallthrough new_stories st) = False"

subsection \<open>Small upstreams and states for the worked examples\<close>

text \<open>An upstream that serves, for each date, a fixed list of pages and announces their
  number as \<^verbatim>\<open>total_pages\<close>; beyond the last page \<^verbatim>\<open>results\<close> is empty.\<close>

definition serve :: "(string \<Rightarrow> doc list list) \<Rightarrow> upstream" where
  "serve pages date_str p =
     Inr \<lparr>results = Some (if 1 \<le> p \<and> p \<le> length (pages date_str)
                           then pages date_str ! (p - 1) else []),
          total_pages = Some (int (length (pages date_str)))\<rparr>"

definition numbered :: "string \<Rightarrow> string \<Rightarrow> doc" where
  "numbered num ttl = \<lparr>document_number = Some num, title = Some ttl\<rparr>"

definition two_rules :: upstream where
  "two_rules =
     serve (\<lambda>d. [[numbered ''2026-00001'' ''Rule A'', numbered ''2026-00002'' ''Rule B'']])"

text \<open>Page 1 announces three pages; every other page fails to load.\<close>

definition broken_second_page :: upstream where
  "broken_second_page date_str p =
     (if p = 1
      then Inr \<lparr>results = Some [numbered ''2026-00001'' ''Rule A'',
                                numbered ''2026-00002'' ''Rule B''],
                total_pages = Some 3\<rparr>
      else Inl NetworkError)"

text \<open>One page holding one document that has no \<^verbatim>\<open>document_number\<close>.\<close>

definition unnumbered_notice :: upstream where
  "unnumbered_notice =
     serve (\<lambda>d. [[\<lparr>document_number = None, title = Some ''Sunshine Act Meeting''\<rparr>]])"

definition fresh :: state where
  "fresh = \<lparr>published_docs = [], next_story_num = 1\<rparr>"

text \<open>An index file without the anchor, and an empty repository.\<close>

definition plain_page :: world where
  "plain_page = \<lparr>state_file = None, listdir = [''index.html''],
                  index_file = Some ''<html><body><h1>News</h1></body></html>'', effects = []\<rparr>"

definition empty_repo :: world where
  "empty_repo = \<lparr>state_file = None, listdir = [], index_file = None, effects = []\<rparr>"

text \<open>Forty documents a day, numbered by date and position, and the dates as day labels.\<close>

definition forty :: "string \<Rightarrow> doc list" where
  "forty date_str = map (\<lambda>i. numbered (date_str @ ''-'' @ str_nat i) ''Notice'') [0..<40]"

definition forty_numbers :: "string \<Rightarrow> string list" where
  "forty_numbers date_str = map (\<lambda>i. date_str @ ''-'' @ str_nat i) [0..<40]"

definition forty_stories :: "string \<Rightarrow> int \<Rightarrow> story list" where
  "forty_stories date_str first =
     map (\<lambda>i. create_story_html (numbered (date_str @ ''-'' @ str_nat i) ''Notice'')
                (first + int i)) [0..<40]"

definition forty_a_day :: upstream where
  "forty_a_day = serve (\<lambda>date_str. [forty date_str])"

definition days_ago :: "nat \<Rightarrow> string" where
  "days_ago i = ''day-'' @ str_nat i"

section \<open>Properties\<close>

subsection \<open>\<^verbatim>\<open>slugify\<close>\<close>

lemma sub_runs_chars: "c \<in> set (sub_runs s) \<Longrightarrow> c = CHR ''-'' \<or> (c \<in> set s \<and> \<not> is_sep c)"
proof (induction s rule: sub_runs.induct)
  case 1
  then show ?case by simp
next
  case (2 d ds)
  then show ?case by (auto split: if_splits dest: set_dropWhileD)
qed

lemma strip_hyphens_subset: "set (strip_hyphens s) \<subseteq> set s"
  unfolding strip_hyphens_def by (auto dest!: set_dropWhileD)

lemma strip_suffix_hd:
  assumes "rev (dropWhile P (rev u)) \<noteq> []"
  shows "hd (rev (dropWhile P (rev u))) = hd u"
proof -
  have "rev (dropWhile P (rev u)) @ rev (takeWhile P (rev u))
          = rev (takeWhile P (rev u) @ dropWhile P (rev u))"
    by (simp only: rev_append)
  also have "\<dots> = u" by (simp only: takeWhile_dropWhile_id rev_rev_ident)
  finally have "hd u = hd (rev (dropWhile P (rev u)) @ rev (takeWhile P (rev u)))" by simp
  with assms show ?thesis by simp
qed

lemma strip_hyphens_hd:
  assumes ne: "strip_hyphens s \<noteq> []"
  shows "hd (strip_hyphens s) \<noteq> CHR ''-''"
proof -
  define P where "P = (\<lambda>c. c = CHR ''-'')"
  define u where "u = dropWhile P s"
  have sh: "strip_hyphens s = rev (dropWhile P (rev u))"
    by (simp only: strip_hyphens_def P_def u_def)
  from ne have h: "hd (strip_hyphens s) = hd u"
    unfolding sh by (rule strip_suffix_hd)
  have "u \<noteq> []"
  proof
    assume "u = []"
    then have "strip_hyphens s = []" unfolding sh by simp
    with ne show False by simp
  qed
  then have "\<not> P (hd u)" unfolding u_def by (rule hd_dropWhile)
  then show ?thesis unfolding h P_def .
qed

lemma strip_hyphens_last:
  assumes ne: "strip_hyphens s \<noteq> []"
  shows "last (strip_hyphens s) \<noteq> CHR ''-''"
proof -
  define P where "P = (\<lambda>c. c = CHR ''-'')"
  define v where "v = dropWhile P (rev (dropWhile P s))"
  have sh: "strip_hyphens s = rev v"
    by (simp only: strip_hyphens_def P_def v_def)
  from ne have v: "v \<noteq> []" unfolding sh by simp
  then have "last (rev v) = hd v" by (simp add: last_rev)
  moreover from v have "\<not> P (hd v)" unfolding v_def by (rule hd_dropWhile)
  ultimately show ?thesis unfolding sh P_def by simp
qed

lemma slug_keep_not_sep: "slug_keep c \<Longrightarrow> \<not> is_sep c \<Longrightarrow> is_lower_az c \<or> is_digit c"
  by (auto simp: slug_keep_def is_sep_def)

text \<open>What does hold of every slug: its alphabet, its length, its first character; and its
  last character as long as nothing is cut off.\<close>

lemma slugify_chars: "c \<in> set (slugify t) \<Longrightarrow> is_lower_az c \<or> is_digit c \<or> c = CHR ''-''"
proof -
  assume "c \<in> set (slugify t)"
  then have "c \<in> set (strip_hyphens (sub_runs (filter slug_keep (lower t))))"
    by (auto simp: slugify_def Let_def dest: in_set_takeD)
  then have "c \<in> set (sub_runs (filter slug_keep (lower t)))"
    using strip_hyphens_subset by blast
  then have "c = CHR ''-'' \<or> (c \<in> set (filter slug_keep (lower t)) \<and> \<not> is_sep c)"
    by (rule sub_runs_chars)
  then show ?thesis using slug_keep_not_sep by auto
qed

lemma slugify_length: "length (slugify t) \<le> 50"
  by (simp add: slugify_def Let_def)

lemma slugify_no_leading_hyphen: "slugify t \<noteq> [] \<Longrightarrow> hd (slugify t) \<noteq> CHR ''-''"
proof -
  let ?s = "strip_hyphens (sub_runs (filter slug_keep (lower t)))"
  assume ne: "slugify t \<noteq> []"
  then have s: "?s \<noteq> []" by (auto simp: slugify_def Let_def)
  have "hd (slugify t) = hd ?s" by (simp add: slugify_def Let_def)
  with strip_hyphens_hd [OF s] show ?thesis by simp
qed

lemma slugify_short_no_trailing_hyphen:
  "slugify t \<noteq> [] \<Longrightarrow> length (strip_hyphens (sub_runs (filter slug_keep (lower t)))) \<le> 50
     \<Longrightarrow> last (slugify t) \<noteq> CHR ''-''"
  using strip_hyphens_last [of "sub_runs (filter slug_keep (lower t))"]
  by (simp add: slugify_def Let_def)

lemmas slug_eval =
  slugify_def lower_def lower_char_def upper_chars_def lower_chars_def slug_keep_def
  is_lower_az_def is_digit_def is_space_def is_sep_def strip_hyphens_def

text \<open>
  Claim C2. \<^verbatim>\<open>slugify\<close> is a function of the title alone and its result has at most 50
  characters, all of them lower-case letters, digits or hyphens, and no leading hyphen
  (the lemmas above). The last part of the claim, no trailing hyphen, fails: the hyphens
  are stripped before the slug is cut to 50 characters, so a title whose cleaned form has
  a hyphen as its 50th character gets a slug that ends in one. The title below is of the
  kind the Federal Register carries.
\<close>

theorem slugify_trailing_hyphen:
  "slugify ''Airworthiness Directives: The Boeing Company Model 737 Airplanes''
     = ''airworthiness-directives-the-boeing-company-model-''"
  by (simp add: slug_eval)

subsection \<open>\<^verbatim>\<open>get_next_story_num\<close>\<close>

lemma collect_nums_eq:
  "collect_nums fs nums
     = nums @ List.map_filter (\<lambda>f. map_option int_of_digits (match_story f)) fs"
  by (induction fs arbitrary: nums) (auto simp: List.map_filter_simps split: option.splits)

lemma foldl_max_Max: "foldl max (x::int) xs = Max (set (x # xs))"
proof (induction xs arbitrary: x)
  case Nil
  then show ?case by simp
next
  case (Cons y ys)
  have "foldl max x (y # ys) = foldl max (max x y) ys" by simp
  also have "\<dots> = Max (set (max x y # ys))" by (rule Cons.IH)
  also have "\<dots> = Max (set (x # y # ys))"
    by (cases "ys = []") (auto simp: max.assoc max.commute max.left_commute)
  finally show ?case .
qed

lemma map_filter_story_seq:
  "List.map_filter story_seq listing =
   List.map_filter (\<lambda>f. map_option int_of_digits (match_story f))
     (filter (\<lambda>f. startswith f ''story-'' \<and> endswith f ''.html'') listing)"
  by (induction listing) (auto simp: List.map_filter_simps story_seq_def split: option.splits)

lemmas story_num_eval =
  get_next_story_num_def story_seq_def startswith_def endswith_def match_story_def
  is_digit_def int_of_digits_def digit_val_def List.map_filter_simps

text \<open>
  Claim C5. \<^verbatim>\<open>get_next_story_num\<close> returns 1 when no name of the directory listing carries
  a sequence number (none passes the \<^verbatim>\<open>story-\<close>...\<^verbatim>\<open>.html\<close> filter and the pattern
  \<^verbatim>\<open>story-(\d+)\<close>), and otherwise one plus the largest number carried. It reads the listing
  only: whatever \<^verbatim>\<open>fr_state.json\<close> holds, \<open>persisted\<close> below, the result is the same.
\<close>

theorem get_next_story_num_max:
  "get_next_story_num listing =
     (if List.map_filter story_seq listing = [] then 1
      else Max (set (List.map_filter story_seq listing)) + 1)
   \<and> get_next_story_num (listdir (w\<lparr>state_file := persisted\<rparr>)) = get_next_story_num (listdir w)"
proof -
  let ?ex = "filter (\<lambda>f. startswith f ''story-'' \<and> endswith f ''.html'') listing"
  have c: "collect_nums ?ex [] = List.map_filter story_seq listing"
    by (simp add: collect_nums_eq map_filter_story_seq)
  have "get_next_story_num listing =
     (if List.map_filter story_seq listing = [] then 1
      else Max (set (List.map_filter story_seq listing)) + 1)"
  proof (cases "List.map_filter story_seq listing")
    case Nil
    then show ?thesis by (simp add: get_next_story_num_def c Let_def)
  next
    case (Cons x xs)
    then have "?ex \<noteq> []" using c by auto
    then show ?thesis using Cons
      by (simp add: get_next_story_num_def c Let_def foldl_max_Max del: set_simps foldl.simps)
  qed
  then show ?thesis by simp
qed

theorem get_next_story_num_max_witness:
  "get_next_story_num
     [''story-007-fr-a.html'', ''index.html'', ''story-12.html'', ''story-x.html'',
      ''story-99.txt'', ''fr_state.json''] = 13
   \<and> get_next_story_num [''index.html'', ''story-x.html'', ''story-99.txt''] = 1"
  using get_next_story_num_max
          [of "[''story-007-fr-a.html'', ''index.html'', ''story-12.html'', ''story-x.html'',
                ''story-99.txt'', ''fr_state.json'']"]
        get_next_story_num_max [of "[''index.html'', ''story-x.html'', ''story-99.txt'']"]
  by (simp add: story_num_eval)

subsection \<open>The loops over documents and pages\<close>

lemma for_append:
  "mine_date_for K (xs @ ys) st acc =
     (case mine_date_for K xs st acc of
        Return a s \<Rightarrow> Return a s
      | Fallthrough a s \<Rightarrow> mine_date_for K ys s a)"
  by (induction xs arbitrary: st acc) (simp_all add: Let_def)

lemma all_for_append:
  "mine_date_all_for (xs @ ys) st acc =
     (case mine_date_all_for xs st acc of (a, s) \<Rightarrow> mine_date_all_for ys s a)"
  by (induction xs arbitrary: st acc) (simp_all add: Let_def)

lemma for_known:
  "get_doc_num ` set docs \<subseteq> set (published_docs st) \<Longrightarrow>
     mine_date_for K docs st acc = Fallthrough acc st"
  by (induction docs arbitrary: st acc) (simp_all add: Let_def)

lemma all_for_known:
  "get_doc_num ` set docs \<subseteq> set (published_docs st) \<Longrightarrow>
     mine_date_all_for docs st acc = (acc, st)"
  by (induction docs arbitrary: st acc) (simp_all add: Let_def)

lemma for_grows:
  "exit_result (mine_date_for K docs st acc) = (acc', st') \<Longrightarrow>
     \<exists>added more.
       published_docs st' = published_docs st @ added \<and>
       set added \<subseteq> get_doc_num ` set docs \<and>
       set added \<inter> set (published_docs st) = {} \<and>
       distinct added \<and>
       acc' = acc @ more \<and> length more = length added \<and>
       next_story_num st' = next_story_num st + int (length added)"
proof (induction docs arbitrary: st acc)
  case Nil
  then show ?case by simp
next
  case (Cons d ds)
  show ?case
  proof (cases "get_doc_num d \<in> set (published_docs st)")
    case True
    with Cons.prems have "exit_result (mine_date_for K ds st acc) = (acc', st')" by simp
    from Cons.IH [OF this] show ?thesis by auto
  next
    case False
    let ?acc = "acc @ [create_story_html d (next_story_num st)]"
    let ?st = "st\<lparr>published_docs := published_docs st @ [get_doc_num d],
                    next_story_num := next_story_num st + 1\<rparr>"
    show ?thesis
    proof (cases "K \<le> int (length ?acc)")
      case True
      with False Cons.prems have "acc' = ?acc" "st' = ?st" by (simp_all add: Let_def)
      then have "published_docs st' = published_docs st @ [get_doc_num d] \<and>
         set [get_doc_num d] \<subseteq> get_doc_num ` set (d # ds) \<and>
         set [get_doc_num d] \<inter> set (published_docs st) = {} \<and>
         distinct [get_doc_num d] \<and>
         acc' = acc @ [create_story_html d (next_story_num st)] \<and>
         length [create_story_html d (next_story_num st)] = length [get_doc_num d] \<and>
         next_story_num st' = next_story_num st + int (length [get_doc_num d])"
        using False by simp
      then show ?thesis by blast
    next
      case lim: False
      with False Cons.prems have "exit_result (mine_date_for K ds ?st ?acc) = (acc', st')"
        by (simp add: Let_def)
      from Cons.IH [OF this] obtain added more where
        a: "published_docs st' = published_docs ?st @ added"
          "set added \<subseteq> get_doc_num ` set ds"
          "set added \<inter> set (published_docs ?st) = {}"
          "distinct added"
          "acc' = ?acc @ more" "length more = length added"
          "next_story_num st' = next_story_num ?st + int (length added)"
        by blast
      have "published_docs st' = published_docs st @ (get_doc_num d # added) \<and>
         set (get_doc_num d # added) \<subseteq> get_doc_num ` set (d # ds) \<and>
         set (get_doc_num d # added) \<inter> set (published_docs st) = {} \<and>
         distinct (get_doc_num d # added) \<and>
         acc' = acc @ (create_story_html d (next_story_num st) # more) \<and>
         length (create_story_html d (next_story_num st) # more) = length (get_doc_num d # added) \<and>
         next_story_num st' = next_story_num st + int (length (get_doc_num d # added))"
        using a False by auto
      then show ?thesis by blast
    qed
  qed
qed

lemma all_for_grows:
  "mine_date_all_for docs st acc = (acc', st') \<Longrightarrow>
     \<exists>added more.
       published_docs st' = published_docs st @ added \<and>
       set added \<subseteq> get_doc_num ` set docs \<and>
       set added \<inter> set (published_docs st) = {} \<and>
       distinct added \<and>
       acc' = acc @ more \<and> length more = length added \<and>
       next_story_num st' = next_story_num st + int (length added)"
proof (induction docs arbitrary: st acc)
  case Nil
  then show ?case by simp
next
  case (Cons d ds)
  show ?case
  proof (cases "get_doc_num d \<in> set (published_docs st)")
    case True
    with Cons.prems have "mine_date_all_for ds st acc = (acc', st')" by simp
    from Cons.IH [OF this] show ?thesis by auto
  next
    case False
    let ?acc = "acc @ [create_story_html d (next_story_num st)]"
    let ?st = "st\<lparr>published_docs := published_docs st @ [get_doc_num d],
                    next_story_num := next_story_num st + 1\<rparr>"
    from False Cons.prems have "mine_date_all_for ds ?st ?acc = (acc', st')"
      by (simp add: Let_def)
    from Cons.IH [OF this] obtain added more where
      a: "published_docs st' = published_docs ?st @ added"
        "set added \<subseteq> get_doc_num ` set ds"
        "set added \<inter> set (published_docs ?st) = {}"
        "distinct added"
        "acc' = ?acc @ more" "length more = length added"
        "next_story_num st' = next_story_num ?st + int (length added)"
      by blast
    have "published_docs st' = published_docs st @ (get_doc_num d # added) \<and>
       set (get_doc_num d # added) \<subseteq> get_doc_num ` set (d # ds) \<and>
       set (get_doc_num d # added) \<inter> set (published_docs st) = {} \<and>
       distinct (get_doc_num d # added) \<and>
       acc' = acc @ (create_story_html d (next_story_num st) # more) \<and>
       length (create_story_html d (next_story_num st) # more) = length (get_doc_num d # added) \<and>
       next_story_num st' = next_story_num st + int (length (get_doc_num d # added))"
      using a False by auto
    then show ?thesis by blast
  qed
qed

lemma for_covers:
  "mine_date_for K docs st acc = Fallthrough acc' st' \<Longrightarrow>
     get_doc_num ` set docs \<union> set (published_docs st) \<subseteq> set (published_docs st')"
proof (induction docs arbitrary: st acc)
  case Nil
  then show ?case by simp
next
  case (Cons d ds)
  show ?case
  proof (cases "get_doc_num d \<in> set (published_docs st)")
    case True
    with Cons.prems have "mine_date_for K ds st acc = Fallthrough acc' st'" by simp
    from Cons.IH [OF this] True show ?thesis by auto
  next
    case False
    let ?acc = "acc @ [create_story_html d (next_story_num st)]"
    let ?st = "st\<lparr>published_docs := published_docs st @ [get_doc_num d],
                    next_story_num := next_story_num st + 1\<rparr>"
    from False Cons.prems have "mine_date_for K ds ?st ?acc = Fallthrough acc' st'"
      by (simp add: Let_def split: if_splits)
    from Cons.IH [OF this] show ?thesis by auto
  qed
qed

lemma all_for_covers:
  "mine_date_all_for docs st acc = (acc', st') \<Longrightarrow>
     get_doc_num ` set docs \<union> set (published_docs st) \<subseteq> set (published_docs st')"
proof (induction docs arbitrary: st acc)
  case Nil
  then show ?case by auto
next
  case (Cons d ds)
  show ?case
  proof (cases "get_doc_num d \<in> set (published_docs st)")
    case True
    with Cons.prems have "mine_date_all_for ds st acc = (acc', st')" by simp
    from Cons.IH [OF this] True show ?thesis by auto
  next
    case False
    let ?acc = "acc @ [create_story_html d (next_story_num st)]"
    let ?st = "st\<lparr>published_docs := published_docs st @ [get_doc_num d],
                    next_story_num := next_story_num st + 1\<rparr>"
    from False Cons.prems have "mine_date_all_for ds ?st ?acc = (acc', st')"
      by (simp add: Let_def)
    from Cons.IH [OF this] show ?thesis by auto
  qed
qed


lemma not_stops_at:
  "\<not> stops_at fetch p \<Longrightarrow>
     \<exists>data. fetch p = Inr data \<and> get_results data \<noteq> [] \<and> \<not> get_total_pages data < int (p + 1)"
  by (auto simp: stops_at_def split: sum.splits)

lemma while_forward:
  assumes "pg \<le> n" "stops_at fetch n" "\<forall>q. pg \<le> q \<and> q < n \<longrightarrow> \<not> stops_at fetch q"
  shows "mine_date_while fetch K pg st acc =
           Some (exit_result (mine_date_for K (concat (map (page_docs fetch) [pg..<Suc n])) st acc))"
  using assms
proof (induction "n - pg" arbitrary: pg st acc)
  case 0
  then have pn: "pg = n" by simp
  have u: "[n..<Suc n] = [n]" by simp
  show ?case
  proof (cases "fetch n")
    case (Inl e)
    then show ?thesis unfolding pn u
      by (subst mine_date_while.simps) (simp add: page_docs_def)
  next
    case (Inr data)
    show ?thesis
    proof (cases "get_results data = []")
      case True
      with Inr show ?thesis unfolding pn u
        by (subst mine_date_while.simps) (simp add: page_docs_def)
    next
      case False
      with Inr "0.prems"(2) pn have "get_total_pages data < int (n + 1)"
        by (simp add: stops_at_def)
      with Inr False show ?thesis unfolding pn u
        by (subst mine_date_while.simps)
           (simp add: page_docs_def Let_def split: for_exit.splits)
    qed
  qed
next
  case (Suc k)
  then have lt: "pg < n" by simp
  with Suc.prems have "\<not> stops_at fetch pg" by simp
  from not_stops_at [OF this] obtain data where
    d: "fetch pg = Inr data" "get_results data \<noteq> []" "\<not> get_total_pages data < int (pg + 1)"
    by blast
  have u: "[pg..<Suc n] = pg # [Suc pg..<Suc n]" using lt by (simp add: upt_conv_Cons)
  have pd: "page_docs fetch pg = get_results data" using d by (simp add: page_docs_def)
  show ?case
  proof (cases "mine_date_for K (get_results data) st acc")
    case (Return a s)
    with d show ?thesis unfolding u
      by (subst mine_date_while.simps) (simp add: pd Let_def for_append del: upt_Suc)
  next
    case (Fallthrough a s)
    have k: "k = n - Suc pg" using Suc.hyps(2) by simp
    have "mine_date_while fetch K (Suc pg) s a =
           Some (exit_result (mine_date_for K (concat (map (page_docs fetch) [Suc pg..<Suc n])) s a))"
      using Suc.hyps(1) [OF k] lt Suc.prems by simp
    with Fallthrough d show ?thesis unfolding u
      by (subst mine_date_while.simps) (simp add: pd Let_def for_append del: upt_Suc)
  qed
qed


lemma while_char_strong:
  assumes "mine_date_while fetch K pg st acc = Some r"
  shows "\<exists>n. pg \<le> n \<and> (\<forall>q. pg \<le> q \<and> q < n \<longrightarrow> \<not> stops_at fetch q) \<and>
             \<not> is_return (mine_date_for K (concat (map (page_docs fetch) [pg..<n])) st acc) \<and>
             (stops_at fetch n \<or>
              is_return (mine_date_for K (concat (map (page_docs fetch) [pg..<Suc n])) st acc)) \<and>
             r = exit_result (mine_date_for K (concat (map (page_docs fetch) [pg..<Suc n])) st acc)"
  using assms
proof (induction rule: mine_date_while.raw_induct [rotated, consumes 1])
  case (1 f fetch K pg st acc r)
  let ?G = "\<lambda>n. pg \<le> n \<and> (\<forall>q. pg \<le> q \<and> q < n \<longrightarrow> \<not> stops_at fetch q) \<and>
             \<not> is_return (mine_date_for K (concat (map (page_docs fetch) [pg..<n])) st acc) \<and>
             (stops_at fetch n \<or>
              is_return (mine_date_for K (concat (map (page_docs fetch) [pg..<Suc n])) st acc)) \<and>
             r = exit_result (mine_date_for K (concat (map (page_docs fetch) [pg..<Suc n])) st acc)"
  have u: "[pg..<Suc pg] = [pg]" by simp
  show ?case
  proof (cases "fetch pg")
    case (Inl e)
    with 1(2) have "?G pg" unfolding u by (auto simp: page_docs_def stops_at_def)
    then show ?thesis by blast
  next
    case (Inr data)
    show ?thesis
    proof (cases "get_results data = []")
      case True
      with Inr 1(2) have "?G pg" unfolding u by (auto simp: page_docs_def stops_at_def)
      then show ?thesis by blast
    next
      case False
      have pd: "page_docs fetch pg = get_results data" using Inr by (simp add: page_docs_def)
      show ?thesis
      proof (cases "mine_date_for K (get_results data) st acc")
        case (Return a s)
        with Inr False 1(2) have "?G pg" unfolding u by (auto simp: pd)
        then show ?thesis by blast
      next
        case (Fallthrough a s)
        show ?thesis
        proof (cases "get_total_pages data < int (pg + 1)")
          case True
          with Inr False Fallthrough 1(2) have "?G pg" unfolding u
            by (auto simp: pd stops_at_def)
          then show ?thesis by blast
        next
          case nt: False
          with Inr False Fallthrough 1(2) have "f fetch K (pg + 1) s a = Some r" by simp
          from 1(1) [OF this] obtain n where
            n: "pg + 1 \<le> n" "\<forall>q. pg + 1 \<le> q \<and> q < n \<longrightarrow> \<not> stops_at fetch q"
               "\<not> is_return (mine_date_for K (concat (map (page_docs fetch) [pg + 1..<n])) s a)"
               "stops_at fetch n \<or>
                is_return (mine_date_for K (concat (map (page_docs fetch) [pg + 1..<Suc n])) s a)"
               "r = exit_result (mine_date_for K (concat (map (page_docs fetch) [pg + 1..<Suc n])) s a)"
            by blast
          have ns: "\<not> stops_at fetch pg" using Inr False nt by (simp add: stops_at_def)
          have v: "[pg..<Suc n] = pg # [pg + 1..<Suc n]" using n(1) by (simp add: upt_conv_Cons)
          have e: "mine_date_for K (concat (map (page_docs fetch) [pg..<Suc n])) st acc
                     = mine_date_for K (concat (map (page_docs fetch) [pg + 1..<Suc n])) s a"
            unfolding v using Fallthrough by (simp add: pd for_append del: upt_Suc)
          have v': "[pg..<n] = pg # [pg + 1..<n]" using n(1) by (simp add: upt_conv_Cons)
          have e': "mine_date_for K (concat (map (page_docs fetch) [pg..<n])) st acc
                     = mine_date_for K (concat (map (page_docs fetch) [pg + 1..<n])) s a"
            unfolding v' using Fallthrough by (simp add: pd for_append del: upt_Suc)
          have "\<forall>q. pg \<le> q \<and> q < n \<longrightarrow> \<not> stops_at fetch q"
          proof (intro allI impI)
            fix q assume q: "pg \<le> q \<and> q < n"
            show "\<not> stops_at fetch q"
            proof (cases "q = pg")
              case True
              with ns show ?thesis by simp
            next
              case False
              with q have "pg + 1 \<le> q \<and> q < n" by simp
              with n(2) show ?thesis by blast
            qed
          qed
          with n e e' have "?G n" by simp
          then show ?thesis by blast
        qed
      qed
    qed
  qed
qed

lemma while_char:
  assumes "mine_date_while fetch K pg st acc = Some r"
  shows "\<exists>n. pg \<le> n \<and> (\<forall>q. pg \<le> q \<and> q < n \<longrightarrow> \<not> stops_at fetch q) \<and>
             (stops_at fetch n \<or>
              is_return (mine_date_for K (concat (map (page_docs fetch) [pg..<Suc n])) st acc)) \<and>
             r = exit_result (mine_date_for K (concat (map (page_docs fetch) [pg..<Suc n])) st acc)"
  using while_char_strong [OF assms] by blast

lemma all_while_forward:
  assumes "pg \<le> n" "stops_at fetch n" "\<forall>q. pg \<le> q \<and> q < n \<longrightarrow> \<not> stops_at fetch q"
  shows "mine_date_all_while fetch pg st acc =
           Some (mine_date_all_for (concat (map (page_docs fetch) [pg..<Suc n])) st acc)"
  using assms
proof (induction "n - pg" arbitrary: pg st acc)
  case 0
  then have pn: "pg = n" by simp
  have u: "[n..<Suc n] = [n]" by simp
  show ?case
  proof (cases "fetch n")
    case (Inl e)
    then show ?thesis unfolding pn u
      by (subst mine_date_all_while.simps) (simp add: page_docs_def)
  next
    case (Inr data)
    show ?thesis
    proof (cases "get_results data = []")
      case True
      with Inr show ?thesis unfolding pn u
        by (subst mine_date_all_while.simps) (simp add: page_docs_def)
    next
      case False
      with Inr "0.prems"(2) pn have "get_total_pages data < int (n + 1)"
        by (simp add: stops_at_def)
      with Inr False show ?thesis unfolding pn u
        by (subst mine_date_all_while.simps)
           (simp add: page_docs_def Let_def split: prod.splits)
    qed
  qed
next
  case (Suc k)
  then have lt: "pg < n" by simp
  with Suc.prems have "\<not> stops_at fetch pg" by simp
  from not_stops_at [OF this] obtain data where
    d: "fetch pg = Inr data" "get_results data \<noteq> []" "\<not> get_total_pages data < int (pg + 1)"
    by blast
  have u: "[pg..<Suc n] = pg # [Suc pg..<Suc n]" using lt by (simp add: upt_conv_Cons)
  have pd: "page_docs fetch pg = get_results data" using d by (simp add: page_docs_def)
  obtain a s where as: "mine_date_all_for (get_results data) st acc = (a, s)"
    by (cases "mine_date_all_for (get_results data) st acc")
  have k: "k = n - Suc pg" using Suc.hyps(2) by simp
  have "mine_date_all_while fetch (Suc pg) s a =
         Some (mine_date_all_for (concat (map (page_docs fetch) [Suc pg..<Suc n])) s a)"
    using Suc.hyps(1) [OF k] lt Suc.prems by simp
  with as d show ?case unfolding u
    by (subst mine_date_all_while.simps) (simp add: pd Let_def all_for_append del: upt_Suc)
qed

lemma all_while_char:
  assumes "mine_date_all_while fetch pg st acc = Some r"
  shows "\<exists>n. pg \<le> n \<and> (\<forall>q. pg \<le> q \<and> q < n \<longrightarrow> \<not> stops_at fetch q) \<and> stops_at fetch n \<and>
             r = mine_date_all_for (concat (map (page_docs fetch) [pg..<Suc n])) st acc"
  using assms
proof (induction rule: mine_date_all_while.raw_induct [rotated, consumes 1])
  case (1 f fetch pg st acc r)
  let ?G = "\<lambda>n. pg \<le> n \<and> (\<forall>q. pg \<le> q \<and> q < n \<longrightarrow> \<not> stops_at fetch q) \<and> stops_at fetch n \<and>
             r = mine_date_all_for (concat (map (page_docs fetch) [pg..<Suc n])) st acc"
  have u: "[pg..<Suc pg] = [pg]" by simp
  show ?case
  proof (cases "fetch pg")
    case (Inl e)
    with 1(2) have "?G pg" unfolding u by (auto simp: page_docs_def stops_at_def)
    then show ?thesis by blast
  next
    case (Inr data)
    show ?thesis
    proof (cases "get_results data = []")
      case True
      with Inr 1(2) have "?G pg" unfolding u by (auto simp: page_docs_def stops_at_def)
      then show ?thesis by blast
    next
      case False
      have pd: "page_docs fetch pg = get_results data" using Inr by (simp add: page_docs_def)
      obtain a s where as: "mine_date_all_for (get_results data) st acc = (a, s)"
        by (cases "mine_date_all_for (get_results data) st acc")
      show ?thesis
      proof (cases "get_total_pages data < int (pg + 1)")
        case True
        with Inr False as 1(2) have "?G pg" unfolding u
          by (auto simp: pd stops_at_def)
        then show ?thesis by blast
      next
        case nt: False
        with Inr False as 1(2) have "f fetch (pg + 1) s a = Some r" by simp
        from 1(1) [OF this] obtain n where
          n: "pg + 1 \<le> n" "\<forall>q. pg + 1 \<le> q \<and> q < n \<longrightarrow> \<not> stops_at fetch q"
             "stops_at fetch n"
             "r = mine_date_all_for (concat (map (page_docs fetch) [pg + 1..<Suc n])) s a"
          by blast
        have ns: "\<not> stops_at fetch pg" using Inr False nt by (simp add: stops_at_def)
        have v: "[pg..<Suc n] = pg # [pg + 1..<Suc n]" using n(1) by (simp add: upt_conv_Cons)
        have e: "mine_date_all_for (concat (map (page_docs fetch) [pg..<Suc n])) st acc
                   = mine_date_all_for (concat (map (page_docs fetch) [pg + 1..<Suc n])) s a"
          unfolding v using as by (simp add: pd all_for_append del: upt_Suc)
        have "\<forall>q. pg \<le> q \<and> q < n \<longrightarrow> \<not> stops_at fetch q"
        proof (intro allI impI)
          fix q assume q: "pg \<le> q \<and> q < n"
          show "\<not> stops_at fetch q"
          proof (cases "q = pg")
            case True
            with ns show ?thesis by simp
          next
            case False
            with q have "pg + 1 \<le> q \<and> q < n" by simp
            with n(2) show ?thesis by blast
          qed
        qed
        with n e have "?G n" by simp
        then show ?thesis by blast
      qed
    qed
  qed
qed


subsection \<open>Evaluating the loops step by step\<close>

lemma for_step:
  "mine_date_for K (d # ds) st acc =
     (if get_doc_num d \<in> set (published_docs st) then mine_date_for K ds st acc
      else if K \<le> int (Suc (length acc))
      then Return (acc @ [create_story_html d (next_story_num st)])
             (st\<lparr>published_docs := published_docs st @ [get_doc_num d],
                  next_story_num := next_story_num st + 1\<rparr>)
      else mine_date_for K ds
             (st\<lparr>published_docs := published_docs st @ [get_doc_num d],
                  next_story_num := next_story_num st + 1\<rparr>)
             (acc @ [create_story_html d (next_story_num st)]))"
  by (simp add: Let_def)

lemma all_for_step:
  "mine_date_all_for (d # ds) st acc =
     (if get_doc_num d \<in> set (published_docs st) then mine_date_all_for ds st acc
      else mine_date_all_for ds
             (st\<lparr>published_docs := published_docs st @ [get_doc_num d],
                  next_story_num := next_story_num st + 1\<rparr>)
             (acc @ [create_story_html d (next_story_num st)]))"
  by (simp add: Let_def)

lemma while_step:
  "mine_date_while fetch K pg st acc =
     (case fetch pg of
        Inl e \<Rightarrow> Some (acc, st)
      | Inr data \<Rightarrow>
          if get_results data = [] then Some (acc, st)
          else (case mine_date_for K (get_results data) st acc of
                  Return a s \<Rightarrow> Some (a, s)
                | Fallthrough a s \<Rightarrow>
                    if get_total_pages data < int (pg + 1) then Some (a, s)
                    else mine_date_while fetch K (pg + 1) s a))"
  by (subst mine_date_while.simps) (simp add: Let_def split: sum.splits)

lemma all_while_step:
  "mine_date_all_while fetch pg st acc =
     (case fetch pg of
        Inl e \<Rightarrow> Some (acc, st)
      | Inr data \<Rightarrow>
          if get_results data = [] then Some (acc, st)
          else (case mine_date_all_for (get_results data) st acc of
                  (a, s) \<Rightarrow>
                    if get_total_pages data < int (pg + 1) then Some (a, s)
                    else mine_date_all_while fetch (pg + 1) s a))"
  by (subst mine_date_all_while.simps) (simp add: Let_def split: sum.splits)

lemmas mine_eval =
  serve_def numbered_def get_results_def get_total_pages_def get_doc_num_def fresh_def
  for_step all_for_step

lemma create_story_html_eq:
  "create_story_html d n =
     (''story-'' @ format_03d n @ ''-fr-''
        @ slugify (case title d of None \<Rightarrow> ''Untitled'' | Some t \<Rightarrow> t) @ ''.html'',
      ''Federal Register: '' @ (case title d of None \<Rightarrow> ''Untitled'' | Some t \<Rightarrow> t))"
  by (simp add: create_story_html_def Let_def)

lemma slugify_eq: "slugify t = take 50 (strip_hyphens (sub_runs (filter slug_keep (lower t))))"
  by (simp add: slugify_def Let_def)

text \<open>The slug and the file name of a short title.\<close>

lemma slugify_example: "slugify ''New Rule: Import Tariffs!!'' = ''new-rule-import-tariffs''"
  by (simp add: slugify_eq lower_def lower_char_def upper_chars_def lower_chars_def
        slug_keep_def is_lower_az_def is_digit_def is_space_def is_sep_def strip_hyphens_def)

lemma create_story_html_example:
  "create_story_html (numbered ''2026-00001'' ''Rule A'') 1
     = (''story-001-fr-rule-a.html'', ''Federal Register: Rule A'')"
  by (simp add: create_story_html_eq numbered_def format_03d_def str_nat.simps digit_char_def
        eval_nat_numeral slugify_eq lower_def lower_char_def upper_chars_def lower_chars_def
        slug_keep_def is_lower_az_def is_digit_def is_space_def is_sep_def strip_hyphens_def)

subsection \<open>Runs of the miners\<close>




lemma spec_unpublished_ids:
  "distinct (map get_doc_num (spec_unpublished ledger ds))
   \<and> set (map get_doc_num (spec_unpublished ledger ds)) = get_doc_num ` set ds - set ledger"
  by (induction ds arbitrary: ledger) auto









text \<open>
  Claim C4. When the fetch of page \<open>n\<close> fails and every page before it lets the loop go
  on, the run returns, and its result is that of the \<^verbatim>\<open>for\<close> loop over the documents of the
  pages \<open>1, \<dots>, n - 1\<close> in order: what was accumulated before the failure. This holds for
  \<^verbatim>\<open>mine_date\<close> (where the batch limit may end the run even earlier) and for
  \<^verbatim>\<open>mine_date_all\<close>; the result is an ordinary value, nothing is raised.
\<close>

theorem fetch_error_keeps_partial:
  assumes "1 \<le> n" and "fetch_documents date_str n = Inl e"
    and "\<forall>q. 1 \<le> q \<and> q < n \<longrightarrow> \<not> stops_at (fetch_documents date_str) q"
  shows "mine_date fetch_documents date_str st K =
           Some (exit_result (mine_date_for K
                   (concat (map (page_docs (fetch_documents date_str)) [1..<n])) st []))
       \<and> mine_date_all fetch_documents date_str st =
           Some (mine_date_all_for
                   (concat (map (page_docs (fetch_documents date_str)) [1..<n])) st [])"
proof -
  let ?f = "fetch_documents date_str"
  have s: "stops_at ?f n" using assms(2) by (simp add: stops_at_def)
  have pd: "page_docs ?f n = []" using assms(2) by (simp add: page_docs_def)
  have c: "concat (map (page_docs ?f) [1..<Suc n]) = concat (map (page_docs ?f) [1..<n])"
    using assms(1) pd by simp
  from while_forward [OF assms(1) s assms(3), of K st "[]"]
       all_while_forward [OF assms(1) s assms(3), of st "[]"]
  show ?thesis unfolding mine_date_def mine_date_all_def c by simp
qed

theorem fetch_error_keeps_partial_witness:
  "(1::nat) \<le> 2 \<and> broken_second_page ''2026-01-02'' 2 = Inl NetworkError
   \<and> \<not> stops_at (broken_second_page ''2026-01-02'') 1
   \<and> mine_date broken_second_page ''2026-01-02'' fresh 100
       = Some ([create_story_html (numbered ''2026-00001'' ''Rule A'') 1,
                create_story_html (numbered ''2026-00002'' ''Rule B'') 2],
               \<lparr>published_docs = [''2026-00001'', ''2026-00002''], next_story_num = 3\<rparr>)
   \<and> mine_date_all broken_second_page ''2026-01-02'' fresh
       = Some ([create_story_html (numbered ''2026-00001'' ''Rule A'') 1,
                create_story_html (numbered ''2026-00002'' ''Rule B'') 2],
               \<lparr>published_docs = [''2026-00001'', ''2026-00002''], next_story_num = 3\<rparr>)"
proof -
  have h1: "(1::nat) \<le> 2" by simp
  have h2: "broken_second_page ''2026-01-02'' 2 = Inl NetworkError"
    by (simp add: broken_second_page_def)
  have ns: "\<not> stops_at (broken_second_page ''2026-01-02'') 1"
    by (simp add: stops_at_def broken_second_page_def mine_eval)
  have h3: "\<forall>q. 1 \<le> q \<and> q < 2 \<longrightarrow> \<not> stops_at (broken_second_page ''2026-01-02'') q"
  proof (intro allI impI)
    fix q :: nat assume "1 \<le> q \<and> q < 2"
    then have "q = 1" by simp
    with ns show "\<not> stops_at (broken_second_page ''2026-01-02'') q" by simp
  qed
  have u: "[1..<2] = [1::nat]" by (simp add: upt_conv_Cons)
  from fetch_error_keeps_partial
         [where fetch_documents = broken_second_page and date_str = "''2026-01-02''" and n = 2
            and e = NetworkError and st = fresh and K = 100, OF h1 h2 h3] h1 h2 ns
  show ?thesis unfolding u
    by (simp add: page_docs_def broken_second_page_def mine_eval del: mine_date_for.simps(2) mine_date_all_for.simps(2))
qed


lemma while_grows:
  assumes "mine_date_while fetch K pg st acc = Some (acc', st')"
  shows "\<exists>added more n.
           published_docs st' = published_docs st @ added \<and>
           pg \<le> n \<and> (\<forall>q. pg \<le> q \<and> q < n \<longrightarrow> \<not> stops_at fetch q) \<and>
           set added \<subseteq> get_doc_num ` set (concat (map (page_docs fetch) [pg..<Suc n])) \<and>
           set added \<inter> set (published_docs st) = {} \<and>
           acc' = acc @ more \<and> length more = length added \<and>
           next_story_num st' = next_story_num st + int (length added)"
proof -
  from while_char [OF assms] obtain n where
    n: "pg \<le> n" "\<forall>q. pg \<le> q \<and> q < n \<longrightarrow> \<not> stops_at fetch q"
       "exit_result (mine_date_for K (concat (map (page_docs fetch) [pg..<Suc n])) st acc) = (acc', st')"
    by metis
  from for_grows [OF n(3)] n(1,2) show ?thesis by blast
qed

lemma all_while_grows:
  assumes "mine_date_all_while fetch pg st acc = Some (acc', st')"
  shows "\<exists>added more n.
           published_docs st' = published_docs st @ added \<and>
           pg \<le> n \<and> (\<forall>q. pg \<le> q \<and> q < n \<longrightarrow> \<not> stops_at fetch q) \<and>
           set added \<subseteq> get_doc_num ` set (concat (map (page_docs fetch) [pg..<Suc n])) \<and>
           set added \<inter> set (published_docs st) = {} \<and>
           acc' = acc @ more \<and> length more = length added \<and>
           next_story_num st' = next_story_num st + int (length added)"
proof -
  from all_while_char [OF assms] obtain n where
    n: "pg \<le> n" "\<forall>q. pg \<le> q \<and> q < n \<longrightarrow> \<not> stops_at fetch q"
       "mine_date_all_for (concat (map (page_docs fetch) [pg..<Suc n])) st acc = (acc', st')"
    by metis
  from all_for_grows [OF n(3)] n(1,2) show ?thesis by blast
qed

lemma run_grows:
  assumes "mine_date fetch_documents date_str st K = Some (stories, st')
         \<or> mine_date_all fetch_documents date_str st = Some (stories, st')"
  shows "\<exists>added n.
           published_docs st' = published_docs st @ added \<and>
           1 \<le> n \<and> (\<forall>q. 1 \<le> q \<and> q < n \<longrightarrow> \<not> stops_at (fetch_documents date_str) q) \<and>
           set added \<subseteq> get_doc_num ` set (concat (map (page_docs (fetch_documents date_str)) [1..<Suc n])) \<and>
           set added \<inter> set (published_docs st) = {} \<and>
           length stories = length added \<and>
           next_story_num st' = next_story_num st + int (length added)"
  using assms
proof
  assume "mine_date fetch_documents date_str st K = Some (stories, st')"
  then have "mine_date_while (fetch_documents date_str) K 1 st [] = Some (stories, st')"
    by (simp add: mine_date_def)
  from while_grows [OF this] show ?thesis by auto
next
  assume "mine_date_all fetch_documents date_str st = Some (stories, st')"
  then have "mine_date_all_while (fetch_documents date_str) 1 st [] = Some (stories, st')"
    by (simp add: mine_date_all_def)
  from all_while_grows [OF this] show ?thesis by auto
qed

text \<open>
  Claim C7. Across a run of \<^verbatim>\<open>mine_date\<close> or \<^verbatim>\<open>mine_date_all\<close> the ledger only grows at its
  end: the old list is a prefix of the new one, so its size does not decrease and every
  old element is kept. Every identifier added is \<^verbatim>\<open>doc.get('document_number', '')\<close> of a
  document on one of the pages \<open>1, \<dots>, n\<close> the run fetched (every page before \<open>n\<close> let the
  loop go on): the document's number, or the empty string when it has none.
\<close>

theorem ledger_append_only:
  assumes "mine_date fetch_documents date_str st K = Some (stories, st')
         \<or> mine_date_all fetch_documents date_str st = Some (stories, st')"
  shows "length (published_docs st) \<le> length (published_docs st')
       \<and> set (published_docs st) \<subseteq> set (published_docs st')
       \<and> (\<exists>added n.
             published_docs st' = published_docs st @ added \<and>
             1 \<le> n \<and> (\<forall>q. 1 \<le> q \<and> q < n \<longrightarrow> \<not> stops_at (fetch_documents date_str) q) \<and>
             set added \<subseteq> get_doc_num `
                set (concat (map (page_docs (fetch_documents date_str)) [1..<Suc n])))"
proof -
  from run_grows [OF assms] obtain added n where
    a: "published_docs st' = published_docs st @ added" "1 \<le> n"
       "\<forall>q. 1 \<le> q \<and> q < n \<longrightarrow> \<not> stops_at (fetch_documents date_str) q"
       "set added \<subseteq> get_doc_num `
                set (concat (map (page_docs (fetch_documents date_str)) [1..<Suc n]))"
    by blast
  from a(1) have "length (published_docs st) \<le> length (published_docs st')"
    "set (published_docs st) \<subseteq> set (published_docs st')" by simp_all
  with a show ?thesis by blast
qed

text \<open>The identifier added need not be the \<^verbatim>\<open>document_number\<close> of a fetched document: for a
  document without one the ledger gains the empty string.\<close>

theorem ledger_gains_empty_string:
  "mine_date unnumbered_notice ''2026-01-02'' fresh 100
     = Some ([create_story_html
                \<lparr>document_number = None, title = Some ''Sunshine Act Meeting''\<rparr> 1],
             \<lparr>published_docs = [''''], next_story_num = 2\<rparr>)
   \<and> Some '''' \<notin> set (map document_number (page_docs (unnumbered_notice ''2026-01-02'') 1))"
  unfolding mine_date_def unnumbered_notice_def
  by (subst while_step) (simp add: mine_eval page_docs_def del: mine_date_for.simps(2))

lemma two_rules_run:
  "mine_date two_rules ''2026-01-02'' fresh 5
     = Some ([create_story_html (numbered ''2026-00001'' ''Rule A'') 1,
              create_story_html (numbered ''2026-00002'' ''Rule B'') 2],
             \<lparr>published_docs = [''2026-00001'', ''2026-00002''], next_story_num = 3\<rparr>)"
  unfolding mine_date_def two_rules_def
  by (subst while_step) (simp add: mine_eval del: mine_date_for.simps(2))

lemma two_rules_run_all:
  "mine_date_all two_rules ''2026-01-02'' fresh
     = Some ([create_story_html (numbered ''2026-00001'' ''Rule A'') 1,
              create_story_html (numbered ''2026-00002'' ''Rule B'') 2],
             \<lparr>published_docs = [''2026-00001'', ''2026-00002''], next_story_num = 3\<rparr>)"
  unfolding mine_date_all_def two_rules_def
  by (subst all_while_step) (simp add: mine_eval del: mine_date_all_for.simps(2))

theorem ledger_append_only_witness:
  "mine_date two_rules ''2026-01-02'' fresh 5
     = Some ([create_story_html (numbered ''2026-00001'' ''Rule A'') 1,
              create_story_html (numbered ''2026-00002'' ''Rule B'') 2],
             \<lparr>published_docs = [''2026-00001'', ''2026-00002''], next_story_num = 3\<rparr>)
   \<and> length (published_docs fresh) \<le> length [''2026-00001'', ''2026-00002'']
   \<and> set (published_docs fresh) \<subseteq> set [''2026-00001'', ''2026-00002'']"
  using ledger_append_only
          [where fetch_documents = two_rules and date_str = "''2026-01-02''" and st = fresh
             and K = 5
             and stories = "[create_story_html (numbered ''2026-00001'' ''Rule A'') 1,
                             create_story_html (numbered ''2026-00002'' ''Rule B'') 2]"
             and st' = "\<lparr>published_docs = [''2026-00001'', ''2026-00002''], next_story_num = 3\<rparr>"]
        two_rules_run
  by simp

lemma for_return_len: "mine_date_for K docs st acc = Return a s \<Longrightarrow> K \<le> int (length a)"
proof (induction docs arbitrary: st acc)
  case Nil
  then show ?case by simp
next
  case (Cons d ds)
  show ?case
  proof (cases "get_doc_num d \<in> set (published_docs st)")
    case True
    with Cons.prems have "mine_date_for K ds st acc = Return a s" by (simp add: for_step del: mine_date_for.simps(2))
    then show ?thesis by (rule Cons.IH)
  next
    case False
    show ?thesis
    proof (cases "K \<le> int (Suc (length acc))")
      case True
      with False Cons.prems show ?thesis by (auto simp: for_step simp del: mine_date_for.simps(2))
    next
      case lim: False
      with False Cons.prems have
        "mine_date_for K ds
           (st\<lparr>published_docs := published_docs st @ [get_doc_num d],
                next_story_num := next_story_num st + 1\<rparr>)
           (acc @ [create_story_html d (next_story_num st)]) = Return a s"
        by (simp add: for_step del: mine_date_for.simps(2))
      then show ?thesis by (rule Cons.IH)
    qed
  qed
qed

lemma while_again:
  assumes run: "mine_date_while fetch K pg st acc = Some (acc1, st1)"
    and open_batch: "int (length acc1) < K"
    and sup: "set (published_docs st1) \<subseteq> set (published_docs st2)"
  shows "mine_date_while fetch K2 pg st2 acc2 = Some (acc2, st2)"
proof -
  from while_char [OF run] obtain n where
    n: "pg \<le> n" "\<forall>q. pg \<le> q \<and> q < n \<longrightarrow> \<not> stops_at fetch q"
       "stops_at fetch n \<or>
        is_return (mine_date_for K (concat (map (page_docs fetch) [pg..<Suc n])) st acc)"
       "(acc1, st1) = exit_result (mine_date_for K (concat (map (page_docs fetch) [pg..<Suc n])) st acc)"
    by blast
  let ?docs = "concat (map (page_docs fetch) [pg..<Suc n])"
  have ft: "mine_date_for K ?docs st acc = Fallthrough acc1 st1"
  proof (cases "mine_date_for K ?docs st acc")
    case (Return a s)
    from for_return_len [OF this] n(4) Return open_batch show ?thesis by simp
  next
    case (Fallthrough a s)
    with n(4) show ?thesis by simp
  qed
  with n(3) have stop: "stops_at fetch n" by simp
  from for_covers [OF ft] sup have "get_doc_num ` set ?docs \<subseteq> set (published_docs st2)"
    by blast
  from for_known [OF this] have "mine_date_for K2 ?docs st2 acc2 = Fallthrough acc2 st2" .
  with while_forward [OF n(1) stop n(2), of K2 st2 acc2] show ?thesis by simp
qed

lemma all_while_again:
  assumes run: "mine_date_all_while fetch pg st acc = Some (acc1, st1)"
    and sup: "set (published_docs st1) \<subseteq> set (published_docs st2)"
  shows "mine_date_all_while fetch pg st2 acc2 = Some (acc2, st2)"
proof -
  from all_while_char [OF run] obtain n where
    n: "pg \<le> n" "\<forall>q. pg \<le> q \<and> q < n \<longrightarrow> \<not> stops_at fetch q" "stops_at fetch n"
       "mine_date_all_for (concat (map (page_docs fetch) [pg..<Suc n])) st acc = (acc1, st1)"
    by metis
  let ?docs = "concat (map (page_docs fetch) [pg..<Suc n])"
  from all_for_covers [OF n(4)] sup have "get_doc_num ` set ?docs \<subseteq> set (published_docs st2)"
    by blast
  from all_for_known [OF this] have "mine_date_all_for ?docs st2 acc2 = (acc2, st2)" .
  with all_while_forward [OF n(1) n(3) n(2), of st2 acc2] show ?thesis by simp
qed

text \<open>
  Claim C1. Mining the same date again with the state of the first run and the same
  upstream. A document whose identifier is in the ledger is skipped: the loop goes on with
  the same state and the same list of stories. So the second run publishes only
  documents that the first run did not add, and its ledger additions are disjoint from
  those of the first. It returns no story at all, and leaves the state as it is, when the
  batch limit did not cut the first run short: always for \<^verbatim>\<open>mine_date_all\<close>, and for
  \<^verbatim>\<open>mine_date\<close> when the first run returned fewer than \<open>K\<close> stories.
\<close>

theorem mining_twice:
  "(mine_date_all f d st = Some (s1, st1) \<longrightarrow> mine_date_all f d st1 = Some ([], st1))
   \<and> (mine_date f d st K = Some (s1, st1) \<and> int (length s1) < K
        \<longrightarrow> mine_date f d st1 K' = Some ([], st1))
   \<and> (get_doc_num x \<in> set (published_docs st1)
        \<longrightarrow> mine_date_for K' (x # xs) st1 acc = mine_date_for K' xs st1 acc
          \<and> mine_date_all_for (x # xs) st1 acc = mine_date_all_for xs st1 acc)
   \<and> ((mine_date f d st K = Some (s1, st1) \<or> mine_date_all f d st = Some (s1, st1))
        \<and> (mine_date f d st1 K' = Some (s2, st2) \<or> mine_date_all f d st1 = Some (s2, st2))
        \<longrightarrow> (\<exists>added1 added2.
               published_docs st1 = published_docs st @ added1 \<and>
               published_docs st2 = published_docs st1 @ added2 \<and>
               set added2 \<inter> set added1 = {} \<and>
               length s2 = length added2 \<and>
               next_story_num st2 = next_story_num st1 + int (length added2)))"
proof (intro conjI impI)
  assume "mine_date_all f d st = Some (s1, st1)"
  then show "mine_date_all f d st1 = Some ([], st1)"
    unfolding mine_date_all_def by (rule all_while_again) simp
next
  assume "mine_date f d st K = Some (s1, st1) \<and> int (length s1) < K"
  then show "mine_date f d st1 K' = Some ([], st1)"
    unfolding mine_date_def using while_again [of "f d" K 1 st "[]" s1 st1 st1 K' "[]"] by simp
next
  assume "get_doc_num x \<in> set (published_docs st1)"
  then show "mine_date_for K' (x # xs) st1 acc = mine_date_for K' xs st1 acc" by simp
next
  assume "get_doc_num x \<in> set (published_docs st1)"
  then show "mine_date_all_for (x # xs) st1 acc = mine_date_all_for xs st1 acc" by simp
next
  assume a: "(mine_date f d st K = Some (s1, st1) \<or> mine_date_all f d st = Some (s1, st1))
        \<and> (mine_date f d st1 K' = Some (s2, st2) \<or> mine_date_all f d st1 = Some (s2, st2))"
  then have r1: "mine_date f d st K = Some (s1, st1) \<or> mine_date_all f d st = Some (s1, st1)"
    and r2: "mine_date f d st1 K' = Some (s2, st2) \<or> mine_date_all f d st1 = Some (s2, st2)"
    by simp_all
  from run_grows [OF r1] obtain added1 where
    a1: "published_docs st1 = published_docs st @ added1" by blast
  from run_grows [OF r2] obtain added2 where
    a2: "published_docs st2 = published_docs st1 @ added2"
        "set added2 \<inter> set (published_docs st1) = {}"
        "length s2 = length added2"
        "next_story_num st2 = next_story_num st1 + int (length added2)" by blast
  from a1 a2(2) have "set added2 \<inter> set added1 = {}" by auto
  with a1 a2 show "\<exists>added1 added2.
               published_docs st1 = published_docs st @ added1 \<and>
               published_docs st2 = published_docs st1 @ added2 \<and>
               set added2 \<inter> set added1 = {} \<and>
               length s2 = length added2 \<and>
               next_story_num st2 = next_story_num st1 + int (length added2)" by blast
qed

text \<open>With two unpublished documents and the batch limit 1, the first run publishes the
  first document and the second run the second.\<close>

theorem second_run_publishes_more:
  "mine_date two_rules ''2026-01-02'' fresh 1
     = Some ([create_story_html (numbered ''2026-00001'' ''Rule A'') 1],
             \<lparr>published_docs = [''2026-00001''], next_story_num = 2\<rparr>)
   \<and> mine_date two_rules ''2026-01-02''
        \<lparr>published_docs = [''2026-00001''], next_story_num = 2\<rparr> 1
     = Some ([create_story_html (numbered ''2026-00002'' ''Rule B'') 2],
             \<lparr>published_docs = [''2026-00001'', ''2026-00002''], next_story_num = 3\<rparr>)"
  unfolding mine_date_def two_rules_def
  by (subst while_step, subst while_step) (simp add: mine_eval del: mine_date_for.simps(2))

theorem mining_twice_witness:
  "mine_date_all two_rules ''2026-01-02'' fresh
     = Some ([create_story_html (numbered ''2026-00001'' ''Rule A'') 1,
              create_story_html (numbered ''2026-00002'' ''Rule B'') 2],
             \<lparr>published_docs = [''2026-00001'', ''2026-00002''], next_story_num = 3\<rparr>)
   \<and> mine_date_all two_rules ''2026-01-02''
         \<lparr>published_docs = [''2026-00001'', ''2026-00002''], next_story_num = 3\<rparr>
     = Some ([], \<lparr>published_docs = [''2026-00001'', ''2026-00002''], next_story_num = 3\<rparr>)
   \<and> mine_date two_rules ''2026-01-02'' fresh 5
     = Some ([create_story_html (numbered ''2026-00001'' ''Rule A'') 1,
              create_story_html (numbered ''2026-00002'' ''Rule B'') 2],
             \<lparr>published_docs = [''2026-00001'', ''2026-00002''], next_story_num = 3\<rparr>)
   \<and> int (length [create_story_html (numbered ''2026-00001'' ''Rule A'') 1,
                    create_story_html (numbered ''2026-00002'' ''Rule B'') 2]) < 5
   \<and> mine_date two_rules ''2026-01-02''
         \<lparr>published_docs = [''2026-00001'', ''2026-00002''], next_story_num = 3\<rparr> 5
     = Some ([], \<lparr>published_docs = [''2026-00001'', ''2026-00002''], next_story_num = 3\<rparr>)
   \<and> get_doc_num (numbered ''2026-00002'' ''Rule B'')
         \<in> set (published_docs
                 \<lparr>published_docs = [''2026-00001'', ''2026-00002''], next_story_num = 3\<rparr>)
   \<and> mine_date_for 5 [numbered ''2026-00002'' ''Rule B'']
         \<lparr>published_docs = [''2026-00001'', ''2026-00002''], next_story_num = 3\<rparr> []
     = Fallthrough [] \<lparr>published_docs = [''2026-00001'', ''2026-00002''], next_story_num = 3\<rparr>"
proof -
  let ?st1 = "\<lparr>published_docs = [''2026-00001'', ''2026-00002''], next_story_num = 3\<rparr>"
  let ?s1 = "[create_story_html (numbered ''2026-00001'' ''Rule A'') 1,
              create_story_html (numbered ''2026-00002'' ''Rule B'') 2]"
  have k: "get_doc_num (numbered ''2026-00002'' ''Rule B'') \<in> set (published_docs ?st1)"
    by (simp add: get_doc_num_def numbered_def)
  from mining_twice
         [where f = two_rules and d = "''2026-01-02''" and st = fresh and K = 5 and K' = 5
            and ?s1.0 = ?s1 and ?st1.0 = ?st1 and ?s2.0 = "[]" and ?st2.0 = ?st1
            and x = "numbered ''2026-00002'' ''Rule B''" and xs = "[]" and acc = "[]"]
       two_rules_run two_rules_run_all k
  show ?thesis by simp
qed

lemma for_skips_unnumbered:
  "[] \<in> set (published_docs st) \<Longrightarrow>
     mine_date_for K docs st acc
       = mine_date_for K (filter (\<lambda>x. document_number x \<noteq> None) docs) st acc"
proof (induction docs arbitrary: st acc)
  case Nil
  then show ?case by simp
next
  case (Cons d ds)
  show ?case
  proof (cases "document_number d")
    case None
    then have "get_doc_num d \<in> set (published_docs st)"
      using Cons.prems by (simp add: get_doc_num_def)
    with None Cons.IH [OF Cons.prems] show ?thesis
      by (simp add: for_step del: mine_date_for.simps(2))
  next
    case (Some num)
    let ?st = "st\<lparr>published_docs := published_docs st @ [get_doc_num d],
                    next_story_num := next_story_num st + 1\<rparr>"
    have "[] \<in> set (published_docs ?st)" using Cons.prems by simp
    from Cons.IH [OF this] Cons.IH [OF Cons.prems] Some show ?thesis
      by (simp add: for_step del: mine_date_for.simps(2))
  qed
qed

lemma all_for_skips_unnumbered:
  "[] \<in> set (published_docs st) \<Longrightarrow>
     mine_date_all_for docs st acc
       = mine_date_all_for (filter (\<lambda>x. document_number x \<noteq> None) docs) st acc"
proof (induction docs arbitrary: st acc)
  case Nil
  then show ?case by simp
next
  case (Cons d ds)
  show ?case
  proof (cases "document_number d")
    case None
    then have "get_doc_num d \<in> set (published_docs st)"
      using Cons.prems by (simp add: get_doc_num_def)
    with None Cons.IH [OF Cons.prems] show ?thesis
      by (simp add: all_for_step del: mine_date_all_for.simps(2))
  next
    case (Some num)
    let ?st = "st\<lparr>published_docs := published_docs st @ [get_doc_num d],
                    next_story_num := next_story_num st + 1\<rparr>"
    have "[] \<in> set (published_docs ?st)" using Cons.prems by simp
    from Cons.IH [OF this] Cons.IH [OF Cons.prems] Some show ?thesis
      by (simp add: all_for_step del: mine_date_all_for.simps(2))
  qed
qed

text \<open>
  Claim C9. A document without a \<^verbatim>\<open>document_number\<close> gets the empty string as its ledger
  identifier. When the loop reaches such a document and the ledger does not hold the
  empty string yet, the document is rendered with the current sequence number, the empty
  string is appended to the ledger and the cursor is incremented. Once the ledger holds
  the empty string, the documents without a number can be struck from any page without
  changing what the loop does: they are all skipped. The empty string stays in the ledger
  across every run, and no later run adds it or publishes a story for it again.
\<close>

theorem missing_document_number:
  assumes "document_number d = None"
  shows "get_doc_num d = ''''
   \<and> ('''' \<notin> set (published_docs st) \<longrightarrow>
        mine_date_all_for (d # ds) st acc
          = mine_date_all_for ds
              (st\<lparr>published_docs := published_docs st @ [''''],
                   next_story_num := next_story_num st + 1\<rparr>)
              (acc @ [create_story_html d (next_story_num st)])
        \<and> mine_date_for K (d # ds) st acc
          = (if K \<le> int (length acc) + 1
             then Return (acc @ [create_story_html d (next_story_num st)])
                    (st\<lparr>published_docs := published_docs st @ [''''],
                         next_story_num := next_story_num st + 1\<rparr>)
             else mine_date_for K ds
                    (st\<lparr>published_docs := published_docs st @ [''''],
                         next_story_num := next_story_num st + 1\<rparr>)
                    (acc @ [create_story_html d (next_story_num st)])))
   \<and> ('''' \<in> set (published_docs st1) \<longrightarrow>
        mine_date_for K docs st1 acc
          = mine_date_for K (filter (\<lambda>x. document_number x \<noteq> None) docs) st1 acc
        \<and> mine_date_all_for docs st1 acc
          = mine_date_all_for (filter (\<lambda>x. document_number x \<noteq> None) docs) st1 acc)
   \<and> ('''' \<in> set (published_docs st1)
        \<and> (mine_date f date_str st1 K = Some (stories, st2)
           \<or> mine_date_all f date_str st1 = Some (stories, st2)) \<longrightarrow>
        '''' \<in> set (published_docs st2)
        \<and> (\<exists>added. published_docs st2 = published_docs st1 @ added
              \<and> '''' \<notin> set added \<and> length stories = length added))"
proof (intro conjI impI)
  show g: "get_doc_num d = ''''" using assms by (simp add: get_doc_num_def)
  {
    assume "'''' \<notin> set (published_docs st)"
    then show "mine_date_all_for (d # ds) st acc
          = mine_date_all_for ds
              (st\<lparr>published_docs := published_docs st @ [''''],
                   next_story_num := next_story_num st + 1\<rparr>)
              (acc @ [create_story_html d (next_story_num st)])"
      using g by (simp add: all_for_step del: mine_date_all_for.simps(2))
  }
  {
    assume "'''' \<notin> set (published_docs st)"
    then show "mine_date_for K (d # ds) st acc
          = (if K \<le> int (length acc) + 1
             then Return (acc @ [create_story_html d (next_story_num st)])
                    (st\<lparr>published_docs := published_docs st @ [''''],
                         next_story_num := next_story_num st + 1\<rparr>)
             else mine_date_for K ds
                    (st\<lparr>published_docs := published_docs st @ [''''],
                         next_story_num := next_story_num st + 1\<rparr>)
                    (acc @ [create_story_html d (next_story_num st)]))"
      using g by (simp add: for_step del: mine_date_for.simps(2))
  }
  {
    assume "'''' \<in> set (published_docs st1)"
    then show "mine_date_for K docs st1 acc
          = mine_date_for K (filter (\<lambda>x. document_number x \<noteq> None) docs) st1 acc"
      by (rule for_skips_unnumbered)
  }
  {
    assume "'''' \<in> set (published_docs st1)"
    then show "mine_date_all_for docs st1 acc
          = mine_date_all_for (filter (\<lambda>x. document_number x \<noteq> None) docs) st1 acc"
      by (rule all_for_skips_unnumbered)
  }
  {
    assume a: "'''' \<in> set (published_docs st1)
        \<and> (mine_date f date_str st1 K = Some (stories, st2)
           \<or> mine_date_all f date_str st1 = Some (stories, st2))"
    then have r: "mine_date f date_str st1 K = Some (stories, st2)
           \<or> mine_date_all f date_str st1 = Some (stories, st2)" by simp
    from run_grows [OF r] obtain added where
      ad: "published_docs st2 = published_docs st1 @ added"
          "set added \<inter> set (published_docs st1) = {}" "length stories = length added"
      by blast
    from a ad(1) show "'''' \<in> set (published_docs st2)" by simp
    from a ad(2) have "'''' \<notin> set added" by auto
    with ad show "\<exists>added. published_docs st2 = published_docs st1 @ added
              \<and> '''' \<notin> set added \<and> length stories = length added" by blast
  }
qed

lemma unnumbered_again:
  "mine_date unnumbered_notice ''2026-01-03'' \<lparr>published_docs = [''''], next_story_num = 2\<rparr> 100
     = Some ([], \<lparr>published_docs = [''''], next_story_num = 2\<rparr>)"
  unfolding mine_date_def unnumbered_notice_def
  by (subst while_step) (simp add: mine_eval del: mine_date_for.simps(2))

theorem missing_document_number_witness:
  "document_number \<lparr>document_number = None, title = Some ''Sunshine Act Meeting''\<rparr> = None
   \<and> '''' \<notin> set (published_docs fresh)
   \<and> mine_date_all_for
        [\<lparr>document_number = None, title = Some ''Sunshine Act Meeting''\<rparr>,
         \<lparr>document_number = None, title = Some ''Privacy Act Notice''\<rparr>,
         numbered ''2026-00003'' ''Rule C''] fresh []
      = ([create_story_html \<lparr>document_number = None, title = Some ''Sunshine Act Meeting''\<rparr> 1,
          create_story_html (numbered ''2026-00003'' ''Rule C'') 2],
         \<lparr>published_docs = ['''', ''2026-00003''], next_story_num = 3\<rparr>)
   \<and> '''' \<in> set (published_docs \<lparr>published_docs = [''''], next_story_num = 2\<rparr>)
   \<and> mine_date_for 100
        [\<lparr>document_number = None, title = Some ''Privacy Act Notice''\<rparr>,
         numbered ''2026-00003'' ''Rule C'']
        \<lparr>published_docs = [''''], next_story_num = 2\<rparr> []
      = mine_date_for 100 [numbered ''2026-00003'' ''Rule C'']
          \<lparr>published_docs = [''''], next_story_num = 2\<rparr> []
   \<and> mine_date unnumbered_notice ''2026-01-03''
        \<lparr>published_docs = [''''], next_story_num = 2\<rparr> 100
      = Some ([], \<lparr>published_docs = [''''], next_story_num = 2\<rparr>)"
  using missing_document_number
          [where d = "\<lparr>document_number = None, title = Some ''Sunshine Act Meeting''\<rparr>"
             and st = fresh and acc = "[]" and K = 100
             and ds = "[\<lparr>document_number = None, title = Some ''Privacy Act Notice''\<rparr>,
                        numbered ''2026-00003'' ''Rule C'']"
             and ?st1.0 = "\<lparr>published_docs = [''''], next_story_num = 2\<rparr>"
             and docs = "[\<lparr>document_number = None, title = Some ''Privacy Act Notice''\<rparr>,
                          numbered ''2026-00003'' ''Rule C'']"
             and f = unnumbered_notice and date_str = "''2026-01-03''" and stories = "[]"
             and ?st2.0 = "\<lparr>published_docs = [''''], next_story_num = 2\<rparr>"]
        unnumbered_again
  by (simp add: mine_eval del: mine_date_all_for.simps(2) mine_date_for.simps(2))

subsection \<open>\<^verbatim>\<open>update_index\<close>\<close>

lemma new_links_concat: "new_links stories links = links @ concat (map link_of stories)"
  by (induction stories links rule: new_links.induct) (simp_all add: link_of_def)

lemma find_str_first:
  assumes "m \<noteq> []" "\<not> str_in m (pre @ butlast m)"
  shows "find_str (pre @ m @ post) m = int (length pre)"
  using assms(2)
proof (induction pre)
  case Nil
  have "startswith (m @ post) m" by (simp add: startswith_def)
  with assms(1) show ?case by (cases m) simp_all
next
  case (Cons x pre)
  have ns: "\<not> startswith (x # pre @ m @ post) m"
  proof
    assume "startswith (x # pre @ m @ post) m"
    then have t: "take (length m) (x # pre @ m @ post) = m" by (simp add: startswith_def)
    define A where "A = x # pre @ butlast m"
    have l: "length m \<le> length A" using assms(1) by (simp add: A_def)
    have e: "x # pre @ m @ post = A @ (last m # post)" using assms(1) by (simp add: A_def)
    have "take (length m) (A @ (last m # post)) = take (length m) A"
      using l by (simp only: take_append) simp
    with t have "take (length m) (x # pre @ butlast m) = m" unfolding e A_def by simp
    then have "startswith (x # pre @ butlast m) m" by (simp add: startswith_def)
    then have "find_str (x # pre @ butlast m) m = 0" by simp
    with Cons.prems show False by (simp add: str_in_def)
  qed
  have "\<not> str_in m (pre @ butlast m)"
  proof
    assume "str_in m (pre @ butlast m)"
    then have "0 \<le> find_str (pre @ butlast m) m" by (simp add: str_in_def)
    then have "0 \<le> find_str (x # pre @ butlast m) m" by (simp add: Let_def)
    with Cons.prems show False by (simp add: str_in_def)
  qed
  from Cons.IH [OF this] ns show ?case by (simp add: Let_def)
qed

lemma insert_marker_ne: "insert_marker \<noteq> []"
  by (simp add: insert_marker_def)

lemma update_index_content_first:
  assumes "content = pre @ insert_marker @ post" "\<not> str_in insert_marker (pre @ butlast insert_marker)"
  shows "update_index_content content new_stories
           = pre @ insert_marker @ concat (map link_of new_stories) @ post"
proof -
  have f: "find_str content insert_marker = int (length pre)"
    unfolding assms(1) by (rule find_str_first [OF insert_marker_ne assms(2)])
  then have "str_in insert_marker content" by (simp add: str_in_def)
  with f show ?thesis
    by (simp add: update_index_content_def Let_def new_links_concat assms(1))
qed

lemma default_index_split: "default_index = default_before @ insert_marker @ default_after"
  by (simp add: default_index_def default_before_def default_after_def insert_marker_def)

lemma default_before_clean: "\<not> str_in insert_marker (default_before @ butlast insert_marker)"
  by (simp add: str_in_def default_before_def insert_marker_def startswith_def)

lemma universal_newlines_id: "CHR 0x0D \<notin> set s \<Longrightarrow> universal_newlines s = s"
  by (induction s rule: universal_newlines.induct) auto

lemma insert_marker_no_cr: "CHR 0x0D \<notin> set insert_marker"
  by (simp add: insert_marker_def)

text \<open>
  Claim C8. The index file is read as text, so every \<^verbatim>\<open>\r\n\<close> and \<^verbatim>\<open>\r\<close> in it becomes
  \<^verbatim>\<open>\n\<close>. When the text so read holds the anchor \<^verbatim>\<open><ul id="stories">\<close>, with \<open>pre\<close> before
  its first occurrence and \<open>post\<close> after it, \<^verbatim>\<open>update_index\<close> writes \<open>pre\<close>, the anchor, one
  line per new story in the order of the batch, and \<open>post\<close>: both sides are kept as they
  were read, and as they were stored when the file holds no carriage return. When the
  text holds no anchor it is written back as read and no entry is added. When there is
  no index file the same insertion is made into the default skeleton.
\<close>

theorem update_index_inserts:
  "(universal_newlines raw = pre @ insert_marker @ post
      \<and> \<not> str_in insert_marker (pre @ butlast insert_marker)
      \<longrightarrow> index_file (update_index new_stories (w\<lparr>index_file := Some raw\<rparr>))
            = Some (pre @ insert_marker @ concat (map link_of new_stories) @ post))
   \<and> (CHR 0x0D \<notin> set (pre' @ post')
      \<and> \<not> str_in insert_marker (pre' @ butlast insert_marker)
      \<longrightarrow> index_file (update_index new_stories
                        (w\<lparr>index_file := Some (pre' @ insert_marker @ post')\<rparr>))
            = Some (pre' @ insert_marker @ concat (map link_of new_stories) @ post'))
   \<and> (\<not> str_in insert_marker (universal_newlines content)
      \<longrightarrow> index_file (update_index new_stories (w\<lparr>index_file := Some content\<rparr>))
            = Some (universal_newlines content))
   \<and> index_file (update_index new_stories (w\<lparr>index_file := None\<rparr>))
       = Some (default_before @ insert_marker @ concat (map link_of new_stories)
                 @ default_after)"
proof (intro conjI impI)
  assume a: "universal_newlines raw = pre @ insert_marker @ post
      \<and> \<not> str_in insert_marker (pre @ butlast insert_marker)"
  then have "update_index_content (universal_newlines raw) new_stories
           = pre @ insert_marker @ concat (map link_of new_stories) @ post"
    by (intro update_index_content_first) simp_all
  then show "index_file (update_index new_stories (w\<lparr>index_file := Some raw\<rparr>))
            = Some (pre @ insert_marker @ concat (map link_of new_stories) @ post)"
    by (simp add: update_index_def Let_def)
next
  assume a: "CHR 0x0D \<notin> set (pre' @ post')
      \<and> \<not> str_in insert_marker (pre' @ butlast insert_marker)"
  then have "CHR 0x0D \<notin> set (pre' @ insert_marker @ post')"
    using insert_marker_no_cr by simp
  then have r: "universal_newlines (pre' @ insert_marker @ post') = pre' @ insert_marker @ post'"
    by (rule universal_newlines_id)
  from a have "update_index_content (pre' @ insert_marker @ post') new_stories
           = pre' @ insert_marker @ concat (map link_of new_stories) @ post'"
    by (intro update_index_content_first) simp_all
  with r show "index_file (update_index new_stories
                        (w\<lparr>index_file := Some (pre' @ insert_marker @ post')\<rparr>))
            = Some (pre' @ insert_marker @ concat (map link_of new_stories) @ post')"
    by (simp add: update_index_def Let_def)
next
  assume "\<not> str_in insert_marker (universal_newlines content)"
  then show "index_file (update_index new_stories (w\<lparr>index_file := Some content\<rparr>))
            = Some (universal_newlines content)"
    by (simp add: update_index_def update_index_content_def Let_def)
next
  have "update_index_content default_index new_stories
           = default_before @ insert_marker @ concat (map link_of new_stories) @ default_after"
    using default_index_split default_before_clean by (rule update_index_content_first)
  then show "index_file (update_index new_stories (w\<lparr>index_file := None\<rparr>))
            = Some (default_before @ insert_marker @ concat (map link_of new_stories)
                      @ default_after)"
    by (simp add: update_index_def Let_def)
qed

text \<open>An existing index without the anchor: the new entry is not inserted.\<close>

theorem update_index_without_anchor:
  "index_file (update_index [(''story-001-fr-rule-a.html'', ''Federal Register: Rule A'')]
                 plain_page)
     = Some ''<html><body><h1>News</h1></body></html>''"
  by (simp add: update_index_def update_index_content_def plain_page_def Let_def str_in_def
        insert_marker_def startswith_def)

theorem update_index_inserts_witness:
  \<open>universal_newlines
       (''<html>'' @ [CHR 0x0D, CHR 0x0A] @ insert_marker @ [CHR 0x0D] @ ''<li>old</li></ul></html>'')
     = (''<html>'' @ [CHR 0x0A]) @ insert_marker @ ([CHR 0x0A] @ ''<li>old</li></ul></html>'')
   \<and> \<not> str_in insert_marker ((''<html>'' @ [CHR 0x0A]) @ butlast insert_marker)
   \<and> CHR 0x0D \<notin> set (''<html>'' @ ''<li>old</li></ul></html>'')
   \<and> \<not> str_in insert_marker (''<html>'' @ butlast insert_marker)
   \<and> \<not> str_in insert_marker
         (universal_newlines (''<html><body>'' @ [CHR 0x0D, CHR 0x0A] @ ''</body></html>''))
   \<and> index_file (update_index [(''story-001-fr-rule-a.html'', ''Federal Register: Rule A''),
                                 (''story-002-fr-rule-b.html'', ''Federal Register: Rule B'')]
                    (empty_repo\<lparr>index_file :=
                       Some (''<html>'' @ [CHR 0x0D, CHR 0x0A] @ insert_marker @ [CHR 0x0D]
                               @ ''<li>old</li></ul></html>'')\<rparr>))
       = Some (''<html>'' @ [CHR 0x0A] @ ''<ul id="stories">'' @ [CHR 0x0A]
               @ ''        <li><a href="story-001-fr-rule-a.html">Federal Register: Rule A</a></li>''
               @ [CHR 0x0A]
               @ ''        <li><a href="story-002-fr-rule-b.html">Federal Register: Rule B</a></li>''
               @ [CHR 0x0A] @ ''<li>old</li></ul></html>'')
   \<and> index_file (update_index [(''story-001-fr-rule-a.html'', ''Federal Register: Rule A''),
                                 (''story-002-fr-rule-b.html'', ''Federal Register: Rule B'')]
                    (empty_repo\<lparr>index_file :=
                       Some (''<html><body>'' @ [CHR 0x0D, CHR 0x0A] @ ''</body></html>'')\<rparr>))
       = Some (''<html><body>'' @ [CHR 0x0A] @ ''</body></html>'')\<close>
proof -
  have h0: "universal_newlines
       (''<html>'' @ [CHR 0x0D, CHR 0x0A] @ insert_marker @ [CHR 0x0D] @ ''<li>old</li></ul></html>'')
     = (''<html>'' @ [CHR 0x0A]) @ insert_marker @ ([CHR 0x0A] @ ''<li>old</li></ul></html>'')"
    by (simp add: insert_marker_def)
  have h1: "\<not> str_in insert_marker ((''<html>'' @ [CHR 0x0A]) @ butlast insert_marker)"
    by (simp add: str_in_def insert_marker_def startswith_def)
  have h2: "CHR 0x0D \<notin> set (''<html>'' @ ''<li>old</li></ul></html>'')" by simp
  have h3: "\<not> str_in insert_marker (''<html>'' @ butlast insert_marker)"
    by (simp add: str_in_def insert_marker_def startswith_def)
  have h4: "\<not> str_in insert_marker
         (universal_newlines (''<html><body>'' @ [CHR 0x0D, CHR 0x0A] @ ''</body></html>''))"
    by (simp add: str_in_def insert_marker_def startswith_def)
  have n: "universal_newlines (''<html><body>'' @ [CHR 0x0D, CHR 0x0A] @ ''</body></html>'')
             = ''<html><body>'' @ [CHR 0x0A] @ ''</body></html>''" by simp
  from update_index_inserts
         [where w = empty_repo
            and raw = "''<html>'' @ [CHR 0x0D, CHR 0x0A] @ insert_marker @ [CHR 0x0D]
                         @ ''<li>old</li></ul></html>''"
            and pre = "''<html>'' @ [CHR 0x0A]"
            and post = "[CHR 0x0A] @ ''<li>old</li></ul></html>''"
            and pre' = "''<html>''" and post' = "''<li>old</li></ul></html>''"
            and content = "''<html><body>'' @ [CHR 0x0D, CHR 0x0A] @ ''</body></html>''"
            and new_stories = "[(''story-001-fr-rule-a.html'', ''Federal Register: Rule A''),
                                (''story-002-fr-rule-b.html'', ''Federal Register: Rule B'')]"]
       h0 h1 h2 h3 h4
  have a: "index_file (update_index [(''story-001-fr-rule-a.html'', ''Federal Register: Rule A''),
                                 (''story-002-fr-rule-b.html'', ''Federal Register: Rule B'')]
                    (empty_repo\<lparr>index_file :=
                       Some (''<html>'' @ [CHR 0x0D, CHR 0x0A] @ insert_marker @ [CHR 0x0D]
                               @ ''<li>old</li></ul></html>'')\<rparr>))
       = Some ((''<html>'' @ [CHR 0x0A]) @ insert_marker
               @ concat (map link_of [(''story-001-fr-rule-a.html'', ''Federal Register: Rule A''),
                                 (''story-002-fr-rule-b.html'', ''Federal Register: Rule B'')])
               @ ([CHR 0x0A] @ ''<li>old</li></ul></html>''))"
    and b: "index_file (update_index [(''story-001-fr-rule-a.html'', ''Federal Register: Rule A''),
                                 (''story-002-fr-rule-b.html'', ''Federal Register: Rule B'')]
                    (empty_repo\<lparr>index_file :=
                       Some (''<html><body>'' @ [CHR 0x0D, CHR 0x0A] @ ''</body></html>'')\<rparr>))
       = Some (universal_newlines (''<html><body>'' @ [CHR 0x0D, CHR 0x0A] @ ''</body></html>''))"
    by blast+
  have c: "index_file (update_index [(''story-001-fr-rule-a.html'', ''Federal Register: Rule A''),
                                 (''story-002-fr-rule-b.html'', ''Federal Register: Rule B'')]
                    (empty_repo\<lparr>index_file :=
                       Some (''<html><body>'' @ [CHR 0x0D, CHR 0x0A] @ ''</body></html>'')\<rparr>))
       = Some (''<html><body>'' @ [CHR 0x0A] @ ''</body></html>'')"
    using b n by simp
  from a have a': \<open>index_file (update_index [(''story-001-fr-rule-a.html'', ''Federal Register: Rule A''),
                                 (''story-002-fr-rule-b.html'', ''Federal Register: Rule B'')]
                    (empty_repo\<lparr>index_file :=
                       Some (''<html>'' @ [CHR 0x0D, CHR 0x0A] @ insert_marker @ [CHR 0x0D]
                               @ ''<li>old</li></ul></html>'')\<rparr>))
       = Some (''<html>'' @ [CHR 0x0A] @ ''<ul id="stories">'' @ [CHR 0x0A]
               @ ''        <li><a href="story-001-fr-rule-a.html">Federal Register: Rule A</a></li>''
               @ [CHR 0x0A]
               @ ''        <li><a href="story-002-fr-rule-b.html">Federal Register: Rule B</a></li>''
               @ [CHR 0x0A] @ ''<li>old</li></ul></html>'')\<close>
    by (simp add: link_of_def insert_marker_def)
  from h0 h1 h2 h3 h4 a' c show ?thesis by blast
qed

subsection \<open>The two \<^verbatim>\<open>main\<close> functions\<close>

lemma forget_eq_iff:
  "forget w1 = forget w2 \<longleftrightarrow>
     listdir w1 = listdir w2 \<and> index_file w1 = index_file w2 \<and> effects w1 = effects w2"
  by (cases w1; cases w2) (simp add: forget_def)

lemma forget_checkpoint:
  "forget w1 = forget w2 \<Longrightarrow>
     forget (git_commit_push m (save_state s w1)) = forget (git_commit_push m (save_state s w2))"
  by (simp add: forget_eq_iff git_commit_push_def save_state_def)

lemma hist_for_forget:
  "forget w1 = forget w2 \<Longrightarrow>
     map_option (\<lambda>(st', t', b', w'). (st', t', b', forget w'))
        (main_hist_for f day c js st t b w1)
   = map_option (\<lambda>(st', t', b', w'). (st', t', b', forget w'))
        (main_hist_for f day c js st t b w2)"
proof (induction js arbitrary: st t b w1 w2)
  case Nil
  then show ?case by simp
next
  case (Cons j js)
  show ?case
  proof (cases "mine_date_all f (day j) st")
    case None
    then show ?thesis by simp
  next
    case (Some r)
    obtain ns st' where r: "r = (ns, st')" by (cases r)
    show ?thesis
    proof (cases "c \<le> int (length (b @ ns))")
      case True
      let ?m = "''Federal Register historical batch: '' @ str_nat (length (b @ ns)) @ '' documents''"
      from forget_checkpoint [OF Cons.prems] have
        "forget (git_commit_push ?m (save_state st' w1)) = forget (git_commit_push ?m (save_state st' w2))" .
      from Cons.IH [OF this] Some r True show ?thesis by (simp add: Let_def)
    next
      case False
      from Cons.IH [OF Cons.prems] Some r False show ?thesis by (simp add: Let_def)
    qed
  qed
qed

lemma observable_forget:
  "map_option (\<lambda>(n, w). (n, forget w)) r1 = map_option (\<lambda>(n, w). (n, forget w)) r2
     \<Longrightarrow> observable r1 = observable r2"
  by (cases r1; cases r2) (auto simp: observable_def forget_eq_iff)

lemma start_state_persisted:
  "start_state (w\<lparr>state_file := Some (s\<lparr>next_story_num := a\<rparr>)\<rparr>)
     = s\<lparr>next_story_num := get_next_story_num (listdir w)\<rparr>"
  by (simp add: start_state_def load_state_def)

lemma main_fr_start:
  "main_fr f today w =
     (case mine_date f today (start_state w) 100 of
        None \<Rightarrow> None
      | Some (new_stories, st') \<Rightarrow>
          if new_stories \<noteq> []
          then Some (length new_stories,
                     git_commit_push
                       (''Federal Register batch: '' @ str_nat (length new_stories)
                          @ '' documents from '' @ today)
                       (save_state st' (update_index new_stories w)))
          else Some (length new_stories, w))"
  by (simp add: main_fr_def start_state_def Let_def)

lemma main_hist_start:
  "main_hist f day days_back c w =
     (case main_hist_for f day c [0..<nat days_back] (start_state w) 0 [] w of
        None \<Rightarrow> None
      | Some (st', total_new, batch_stories, w') \<Rightarrow>
          if batch_stories \<noteq> []
          then Some (total_new,
                     git_commit_push
                       (''Federal Register historical batch: ''
                          @ str_nat (length batch_stories) @ '' documents'')
                       (save_state st' w'))
          else Some (total_new, w'))"
  by (simp add: main_hist_def start_state_def Let_def)

lemma main_fr_forget:
  assumes "forget w1 = forget w2" "start_state w1 = start_state w2"
  shows "map_option (\<lambda>(n, w). (n, forget w)) (main_fr f today w1)
       = map_option (\<lambda>(n, w). (n, forget w)) (main_fr f today w2)"
proof (cases "mine_date f today (start_state w2) 100")
  case None
  with assms(2) show ?thesis by (simp add: main_fr_start)
next
  case (Some r)
  obtain ns st' where r: "r = (ns, st')" by (cases r)
  from assms(1) have "forget (update_index ns w1) = forget (update_index ns w2)"
    by (simp add: forget_eq_iff update_index_def Let_def)
  from forget_checkpoint [OF this] assms Some r show ?thesis
    by (simp add: main_fr_start)
qed

lemma main_hist_forget:
  assumes "forget w1 = forget w2" "start_state w1 = start_state w2"
  shows "map_option (\<lambda>(n, w). (n, forget w)) (main_hist f day n c w1)
       = map_option (\<lambda>(n, w). (n, forget w)) (main_hist f day n c w2)"
proof -
  let ?r1 = "main_hist_for f day c [0..<nat n] (start_state w2) 0 [] w1"
  let ?r2 = "main_hist_for f day c [0..<nat n] (start_state w2) 0 [] w2"
  have e: "map_option (\<lambda>(st', t', b', w'). (st', t', b', forget w')) ?r1
         = map_option (\<lambda>(st', t', b', w'). (st', t', b', forget w')) ?r2"
    by (rule hist_for_forget [OF assms(1)])
  show ?thesis
  proof (cases ?r1)
    case None
    with e have "?r2 = None" by simp
    with None assms(2) show ?thesis by (simp add: main_hist_start)
  next
    case (Some x1)
    with e obtain x2 where x2: "?r2 = Some x2" by (cases ?r2) simp_all
    obtain st1 t1 b1 v1 where x1: "x1 = (st1, t1, b1, v1)" by (cases x1)
    obtain st2 t2 b2 v2 where y2: "x2 = (st2, t2, b2, v2)" by (cases x2)
    from e Some x2 x1 y2 have q: "st1 = st2" "t1 = t2" "b1 = b2" "forget v1 = forget v2"
      by simp_all
    from forget_checkpoint [OF q(4)] q Some x2 x1 y2 assms(2) show ?thesis
      by (simp add: main_hist_start)
  qed
qed

text \<open>
  Claim C10. Two runs of \<^verbatim>\<open>main\<close>, of either program, from worlds that differ only in the
  persisted \<^verbatim>\<open>next_story_num\<close> (\<open>a\<close> in one, \<open>b\<close> in the other): after the first two
  statements the states are equal, with the cursor taken from the directory listing; so
  the mining (stories, file names, final state) is the same, and so are the number
  returned, the index file and the sequence of writes and pushes, the saved state among
  them.
\<close>

theorem persisted_cursor_ignored:
  "start_state (w\<lparr>state_file := Some (s\<lparr>next_story_num := a\<rparr>)\<rparr>)
     = start_state (w\<lparr>state_file := Some (s\<lparr>next_story_num := b\<rparr>)\<rparr>)
   \<and> next_story_num (start_state (w\<lparr>state_file := Some (s\<lparr>next_story_num := a\<rparr>)\<rparr>))
     = get_next_story_num (listdir w)
   \<and> mine_date f today (start_state (w\<lparr>state_file := Some (s\<lparr>next_story_num := a\<rparr>)\<rparr>)) 100
     = mine_date f today (start_state (w\<lparr>state_file := Some (s\<lparr>next_story_num := b\<rparr>)\<rparr>)) 100
   \<and> observable (main_fr f today (w\<lparr>state_file := Some (s\<lparr>next_story_num := a\<rparr>)\<rparr>))
     = observable (main_fr f today (w\<lparr>state_file := Some (s\<lparr>next_story_num := b\<rparr>)\<rparr>))
   \<and> observable (main_hist f day n c (w\<lparr>state_file := Some (s\<lparr>next_story_num := a\<rparr>)\<rparr>))
     = observable (main_hist f day n c (w\<lparr>state_file := Some (s\<lparr>next_story_num := b\<rparr>)\<rparr>))"
proof -
  let ?wa = "w\<lparr>state_file := Some (s\<lparr>next_story_num := a\<rparr>)\<rparr>"
  let ?wb = "w\<lparr>state_file := Some (s\<lparr>next_story_num := b\<rparr>)\<rparr>"
  have s: "start_state ?wa = start_state ?wb" by (simp add: start_state_persisted)
  have f: "forget ?wa = forget ?wb" by (simp add: forget_def)
  have n: "next_story_num (start_state ?wa) = get_next_story_num (listdir w)"
    by (simp add: start_state_persisted)
  have m: "mine_date f today (start_state ?wa) 100 = mine_date f today (start_state ?wb) 100"
    by (simp only: s)
  have o1: "observable (main_fr f today ?wa) = observable (main_fr f today ?wb)"
    by (rule observable_forget) (rule main_fr_forget [OF f s])
  have o2: "observable (main_hist f day n c ?wa) = observable (main_hist f day n c ?wb)"
    by (rule observable_forget) (rule main_hist_forget [OF f s])
  from s n m o1 o2 show ?thesis by blast
qed

lemma hist_step:
  "main_hist_for f day c (i # js) st t b w =
     (case mine_date_all f (day i) st of
        None \<Rightarrow> None
      | Some (new_stories, st') \<Rightarrow>
          if c \<le> int (length (b @ new_stories))
          then main_hist_for f day c js st' (t + length new_stories) []
                 (git_commit_push
                    (''Federal Register historical batch: ''
                       @ str_nat (length (b @ new_stories)) @ '' documents'')
                    (save_state st' w))
          else main_hist_for f day c js st' (t + length new_stories) (b @ new_stories) w)"
  by (simp add: Let_def split: option.splits)

lemma str_nat_120: "str_nat 120 = ''120''"
  by (simp add: str_nat.simps digit_char_def)

text \<open>
  Claim C6. Historical mode over three days with the checkpoint threshold 100, each day
  yielding 40 new stories. After day 1 the accumulator holds the 40 stories and nothing
  has been written; after day 2 it holds 80 and nothing has been written; after day 3 it
  has reached 120, the state is saved and one push announces 120 documents, and the
  accumulator is empty. The flush after the loop then does nothing: \<^verbatim>\<open>main\<close> returns 120
  and the only effects are that one save and that one push.
\<close>

theorem historical_checkpoint_scenario:
  assumes d0: "mine_date_all f (day 0) (start_state w) = Some (n0, st1)" and l0: "length n0 = 40"
    and d1: "mine_date_all f (day 1) st1 = Some (n1, st2)" and l1: "length n1 = 40"
    and d2: "mine_date_all f (day 2) st2 = Some (n2, st3)" and l2: "length n2 = 40"
  shows "main_hist_for f day 100 [0] (start_state w) 0 [] w = Some (st1, 40, n0, w)
       \<and> main_hist_for f day 100 [0, 1] (start_state w) 0 [] w = Some (st2, 80, n0 @ n1, w)
       \<and> main_hist_for f day 100 [0, 1, 2] (start_state w) 0 [] w
           = Some (st3, 120, [],
                   w\<lparr>state_file := Some st3,
                     effects := effects w @
                       [SaveState st3,
                        CommitPush ''Federal Register historical batch: 120 documents'']\<rparr>)
       \<and> main_hist f day 3 100 w
           = Some (120,
                   w\<lparr>state_file := Some st3,
                     effects := effects w @
                       [SaveState st3,
                        CommitPush ''Federal Register historical batch: 120 documents'']\<rparr>)"
proof -
  have a: "main_hist_for f day 100 [0] (start_state w) 0 [] w = Some (st1, 40, n0, w)"
    using d0 l0 by (simp add: hist_step del: main_hist_for.simps(2))
  have b: "main_hist_for f day 100 [0, 1] (start_state w) 0 [] w = Some (st2, 80, n0 @ n1, w)"
    using d0 l0 d1 l1 by (simp add: hist_step del: main_hist_for.simps(2))
  have c: "main_hist_for f day 100 [0, 1, 2] (start_state w) 0 [] w
           = Some (st3, 120, [],
                   w\<lparr>state_file := Some st3,
                     effects := effects w @
                       [SaveState st3,
                        CommitPush ''Federal Register historical batch: 120 documents'']\<rparr>)"
    using d0 l0 d1 l1 d2 l2
    by (simp add: hist_step str_nat_120 save_state_def git_commit_push_def
          del: main_hist_for.simps(2))
  have u: "[0..<nat 3] = [0, 1, 2]" by (simp add: upt_rec)
  have d: "main_hist f day 3 100 w
           = Some (120,
                   w\<lparr>state_file := Some st3,
                     effects := effects w @
                       [SaveState st3,
                        CommitPush ''Federal Register historical batch: 120 documents'']\<rparr>)"
    unfolding main_hist_start u c by simp
  from a b c d show ?thesis by blast
qed

lemma upt40: "[0..<40] = [0,1,2,3,4,5,6,7,8,9,10,11,12,13,14,15,16,17,18,19,20,21,22,23,24,25,26,27,28,29,30,31,32,33,34,35,36,37,38,39]"
  by (simp add: upt_rec)

lemmas forty_eval =
  forty_def forty_numbers_def forty_stories_def days_ago_def upt40 str_nat.simps digit_char_def
  mine_eval

lemma start_empty: "start_state empty_repo = fresh"
  by (simp add: start_state_def empty_repo_def load_state_def get_next_story_num_def fresh_def)

lemma forty_day0:
  "mine_date_all forty_a_day (days_ago 0) fresh
     = Some (forty_stories (days_ago 0) 1,
             \<lparr>published_docs = forty_numbers (days_ago 0), next_story_num = 41\<rparr>)"
  unfolding mine_date_all_def forty_a_day_def
  by (subst all_while_step) (simp add: forty_eval del: mine_date_all_for.simps(2))

lemma forty_day1:
  "mine_date_all forty_a_day (days_ago 1)
       \<lparr>published_docs = forty_numbers (days_ago 0), next_story_num = 41\<rparr>
     = Some (forty_stories (days_ago 1) 41,
             \<lparr>published_docs = forty_numbers (days_ago 0) @ forty_numbers (days_ago 1),
                next_story_num = 81\<rparr>)"
  unfolding mine_date_all_def forty_a_day_def
  by (subst all_while_step) (simp add: forty_eval del: mine_date_all_for.simps(2))

lemma forty_day2:
  "mine_date_all forty_a_day (days_ago 2)
       \<lparr>published_docs = forty_numbers (days_ago 0) @ forty_numbers (days_ago 1),
          next_story_num = 81\<rparr>
     = Some (forty_stories (days_ago 2) 81,
             \<lparr>published_docs = forty_numbers (days_ago 0) @ forty_numbers (days_ago 1)
                  @ forty_numbers (days_ago 2),
                next_story_num = 121\<rparr>)"
  unfolding mine_date_all_def forty_a_day_def
  by (subst all_while_step) (simp add: forty_eval del: mine_date_all_for.simps(2))

lemma forty_length: "length (forty_stories d k) = 40"
  by (simp add: forty_stories_def)

theorem historical_checkpoint_scenario_witness:
  "mine_date_all forty_a_day (days_ago 0) (start_state empty_repo)
     = Some (forty_stories (days_ago 0) 1,
             \<lparr>published_docs = forty_numbers (days_ago 0), next_story_num = 41\<rparr>)
   \<and> length (forty_stories (days_ago 0) 1) = 40
   \<and> length (forty_stories (days_ago 1) 41) = 40
   \<and> length (forty_stories (days_ago 2) 81) = 40
   \<and> main_hist forty_a_day days_ago 3 100 empty_repo
       = Some (120,
               \<lparr>state_file = Some \<lparr>published_docs = forty_numbers (days_ago 0)
                                       @ forty_numbers (days_ago 1) @ forty_numbers (days_ago 2),
                                    next_story_num = 121\<rparr>,
                  listdir = [], index_file = None,
                  effects =
                    [SaveState \<lparr>published_docs = forty_numbers (days_ago 0)
                                   @ forty_numbers (days_ago 1) @ forty_numbers (days_ago 2),
                                 next_story_num = 121\<rparr>,
                     CommitPush ''Federal Register historical batch: 120 documents'']\<rparr>)"
proof -
  have d0: "mine_date_all forty_a_day (days_ago 0) (start_state empty_repo)
     = Some (forty_stories (days_ago 0) 1,
             \<lparr>published_docs = forty_numbers (days_ago 0), next_story_num = 41\<rparr>)"
    unfolding start_empty by (rule forty_day0)
  from historical_checkpoint_scenario
         [where f = forty_a_day and day = days_ago and w = empty_repo,
          OF d0 forty_length forty_day1 forty_length forty_day2 forty_length]
       d0 forty_length
  show ?thesis by (simp add: empty_repo_def)
qed

end
